theory Spec2Isabelle
  imports Complex_Main
begin

chapter \<open>Adaptive max pooling 2D on the CPU: forward and backward kernels\<close>

text \<open>
  A shallow embedding of \<^verbatim>\<open>csrc/aten/cpu/AdaptiveMaxPooling.cpp\<close>: the contiguous and the
  channels-last forward kernels (the latter with its brain-float specialisation), the two
  backward kernels, the kernel dispatch and the forward dispatch shell.

  Conventions of the embedding.
  \<^item> A tensor is a record of its sizes, the layout tag that \<^verbatim>\<open>suggest_memory_format()\<close>
    reports, and its buffer as a list, in the order of that layout: row-major (N, C, H, W) for
    \<open>Contiguous\<close>, (N, H, W, C) for \<open>ChannelsLast\<close>. A kernel's \<^verbatim>\<open>x.contiguous(...)\<close> of
    a tensor that already has the layout is that buffer.
  \<^item> The template parameter \<^verbatim>\<open>scalar_t\<close> is an argument of type \<open>scalar_type\<close>.
  \<^item> Sizes, loop counters and buffer offsets are \<^verbatim>\<open>int64_t\<close> in the source and never
    negative; they are natural numbers here. Stored indices are integers.
  \<^item> \<^verbatim>\<open>at::parallel_for\<close> hands disjoint sub-ranges to workers that share no state
    other than the cells each one writes; it is the sequential loop over the whole range.
  \<^item> A \<^verbatim>\<open>for\<close> loop over a range is \<open>fold\<close> over that range, the loop body being the
    folded function and the mutated buffers its state.
  \<^item> \<^verbatim>\<open>TORCH_CHECK\<close> failures are values of type \<open>error\<close>, returned as \<open>Inl\<close>.
\<close>

section \<open>Element values\<close>

text \<open>
  The three supported element types. Their values are embedded in one type: not-a-number,
  the two infinities and the finite values as real numbers (every finite value of the three
  formats is a dyadic rational). Widening brain-float to float is exact, and narrowing a
  widened value gives it back, so both conversions are the identity on this type.
\<close>

datatype scalar_type = Float | Double | BFloat16

datatype fp = NaN | NegInf | Num real | PosInf

text \<open>\<^verbatim>\<open>operator>\<close> of IEEE 754: false as soon as one operand is not a number.\<close>

fun fgt :: "fp \<Rightarrow> fp \<Rightarrow> bool" where
  "fgt NaN y = False"
| "fgt x NaN = False"
| "fgt x PosInf = False"
| "fgt PosInf y = True"
| "fgt NegInf y = False"
| "fgt (Num a) NegInf = True"
| "fgt (Num a) (Num b) = (b < a)"

definition isnan :: "fp \<Rightarrow> bool" where
  "isnan v = (v = NaN)"

subsection \<open>Integers converted to an element type and back\<close>

text \<open>
  \<^verbatim>\<open>scalar_t(maxindex)\<close> converts a 64-bit integer to the element type, and storing the
  result in the \<^verbatim>\<open>int64_t\<close> indices buffer converts it back. The element types are not
  part of the source file; their conversions are those of the language and of
  \<^verbatim>\<open>c10::BFloat16\<close>: round to nearest, ties to even, on 24 significant bits for float, 53
  for double, and for brain-float (7 stored mantissa bits, so 8 significant bits) through
  float first. \<open>round_sig p k\<close> rounds the natural number \<open>k\<close> to \<open>p\<close> significant bits.
\<close>

fun bit_length :: "nat \<Rightarrow> nat" where
  "bit_length n = (if n = 0 then 0 else Suc (bit_length (n div 2)))"

declare bit_length.simps [simp del]

definition round_sig :: "nat \<Rightarrow> nat \<Rightarrow> nat" where
  "round_sig p k =
     (if k < 2 ^ p then k
      else let e = bit_length k - p;
               q = k div 2 ^ e;
               r = k mod 2 ^ e;
               h = 2 ^ (e - 1)
           in (if h < r \<or> (r = h \<and> odd q) then q + 1 else q) * 2 ^ e)"

fun cast_index :: "scalar_type \<Rightarrow> nat \<Rightarrow> nat" where
  "cast_index Float k = round_sig 24 k"
| "cast_index Double k = round_sig 53 k"
| "cast_index BFloat16 k = round_sig 8 (round_sig 24 k)"

text \<open>
  The arithmetic of \<^verbatim>\<open>c10::BFloat16\<close> on the brain-float values that are natural numbers
  (\<open>k\<close> is one when \<open>round_sig 8 k = k\<close>): the operands are widened to float, added or
  multiplied there, and the float result is rounded to brain-float. The type is not part of
  the source file; the backward kernels take the addition of their element type as an
  argument, and this is the one of brain-float.
\<close>

definition bf16_add :: "nat \<Rightarrow> nat \<Rightarrow> nat" where
  "bf16_add a b = round_sig 8 (round_sig 24 (a + b))"

definition bf16_mul :: "nat \<Rightarrow> nat \<Rightarrow> nat" where
  "bf16_mul a b = round_sig 8 (round_sig 24 (a * b))"

subsection \<open>Index lanes of the vectorised kernel\<close>

text \<open>
  \<^verbatim>\<open>integer_t = int_same_size_t<scalar_t>\<close>: 32 bits for float, 64 for double; the
  brain-float specialisation uses \<^verbatim>\<open>int32_t\<close>. \<open>lane_cast\<close> is the conversion of an
  \<^verbatim>\<open>int64_t\<close> to that type (two's complement wrap-around), \<open>lane_max\<close> its
  \<^verbatim>\<open>std::numeric_limits<integer_t>::max()\<close>.
\<close>

fun lane_bits :: "scalar_type \<Rightarrow> nat" where
  "lane_bits Float = 32"
| "lane_bits Double = 64"
| "lane_bits BFloat16 = 32"

definition lane_cast :: "scalar_type \<Rightarrow> int \<Rightarrow> int" where
  "lane_cast scalar_t k = signed_take_bit (lane_bits scalar_t - 1) k"

definition lane_max :: "scalar_type \<Rightarrow> int" where
  "lane_max scalar_t = 2 ^ (lane_bits scalar_t - 1) - 1"

section \<open>Tensors and errors\<close>

datatype memory_format = Contiguous | ChannelsLast | ChannelsLast3d | Preserve

record 'a tensor =
  sizes :: "nat list"
  suggest_memory_format :: memory_format
  data :: "'a list"

text \<open>
  \<^verbatim>\<open>at::empty\<close> allocates without initialising. The model fills the buffer with a value
  given by the caller; the kernels overwrite every element. The layout field of the result
  is the layout that was asked for. The source derives the layout of a tensor from its
  strides, and on a shape where the strides do not tell the two layouts apart (a 4D shape
  with \<open>H = W = 1\<close>) a channels-last allocation reports contiguous. The forward kernels are
  chosen by the layout of the input, not by that of the output or of the indices.
\<close>

definition at_empty :: "nat list \<Rightarrow> memory_format \<Rightarrow> 'a \<Rightarrow> 'a tensor" where
  "at_empty shape fmt filler =
     \<lparr>sizes = shape, suggest_memory_format = fmt, data = replicate (prod_list shape) filler\<rparr>"

text \<open>One constructor for each \<^verbatim>\<open>TORCH_CHECK\<close> of the file; all raise \<^verbatim>\<open>c10::Error\<close>.\<close>

datatype error =
    ExpectedRank3or4
  | EmptyDimension nat
  | OutputSizeArity
  | UnsupportedMemoryFormat
  | ChannelsLastNeeds4Dims
  | IndexLaneOverflow

section \<open>Window bounds\<close>

text \<open>
  Modelled from the spec: \<^verbatim>\<open>start_index\<close> and \<^verbatim>\<open>end_index\<close> come from
  \<^verbatim>\<open>ATen/native/AdaptivePooling.h\<close>, which is not part of the source file. The spec
  defines, for output index \<open>a\<close>, output extent \<open>b\<close> and input extent \<open>c\<close>, the start as the
  floor of \<open>a * c / b\<close> and the end as the ceiling of \<open>(a + 1) * c / b\<close>.
\<close>

definition start_index :: "nat \<Rightarrow> nat \<Rightarrow> nat \<Rightarrow> nat" where
  "start_index a b c = (a * c) div b"

definition end_index :: "nat \<Rightarrow> nat \<Rightarrow> nat \<Rightarrow> nat" where
  "end_index a b c = ((a + 1) * c + b - 1) div b"

text \<open>
  Modelled from the spec: \<^verbatim>\<open>data_index_init\<close> and \<^verbatim>\<open>data_index_step\<close> come from
  \<^verbatim>\<open>ATen/native/cpu/utils.h\<close>, which is not part of the source file. The spec has the
  channels-last work units enumerate the output positions (n, oh, ow) of N * oH * oW in
  row-major order; \<open>data_index i\<close> is the position of work unit \<open>i\<close>.
\<close>

definition data_index :: "nat \<Rightarrow> nat \<Rightarrow> nat \<Rightarrow> nat \<Rightarrow> nat \<times> nat \<times> nat" where
  "data_index i nbatch output_height output_width =
     ((i div output_width div output_height) mod nbatch,
      (i div output_width) mod output_height,
      i mod output_width)"

section \<open>Forward kernel, contiguous layout\<close>

text \<open>
  The body of the scan (source lines 62 to 65, and 190 to 192 and the blends of the vector
  loop in the channels-last kernel): the running maximum and its index are replaced when
  the value is greater, or is not a number.
\<close>

definition scan_step :: "fp \<Rightarrow> 'i \<Rightarrow> fp \<times> 'i \<Rightarrow> fp \<times> 'i" where
  "scan_step val index = (\<lambda>(maxval, maxindex).
     if fgt val maxval \<or> isnan val then (val, index) else (maxval, maxindex))"

text \<open>
  ``compute local max'' (source lines 56 to 67) for the plane that starts at offset
  \<open>input_ptr\<close> of the input buffer.
\<close>

definition local_max ::
  "fp list \<Rightarrow> nat \<Rightarrow> nat \<Rightarrow> nat \<Rightarrow> nat \<Rightarrow> nat \<Rightarrow> nat \<Rightarrow> fp \<times> nat" where
  "local_max input_data input_ptr input_width ih0 ih1 iw0 iw1 =
     fold (\<lambda>ih. fold (\<lambda>iw.
             let index = ih * input_width + iw;
                 val = input_data ! (input_ptr + index)
             in scan_step val index)
           [iw0..<iw1])
       [ih0..<ih1]
       (NegInf, ih0 * input_width + iw0)"

text \<open>
  \<^verbatim>\<open>cpu_adaptive_max_pool<scalar_t, accscalar_t>\<close>. The accumulator type is float for
  brain-float input and the element type otherwise; on the embedded values both are the same.
  The index is stored through \<^verbatim>\<open>scalar_t(maxindex)\<close> (source line 71).
\<close>

definition cpu_adaptive_max_pool ::
  "scalar_type \<Rightarrow> fp tensor \<Rightarrow> int tensor \<Rightarrow> fp tensor \<Rightarrow> nat list \<Rightarrow> fp tensor \<times> int tensor" where
  "cpu_adaptive_max_pool scalar_t output indices input output_size =
     (let ndim = length (sizes input);
          channels = (if ndim = 3 then sizes input ! 0 else sizes input ! 0 * sizes input ! 1);
          input_height = sizes input ! (ndim - 2);
          input_width = sizes input ! (ndim - 1);
          output_height = output_size ! 0;
          output_width = output_size ! 1;
          (output_data, indices_data) =
            fold (\<lambda>c. fold (\<lambda>oh.
                let ih0 = start_index oh output_height input_height;
                    ih1 = end_index oh output_height input_height
                in fold (\<lambda>ow (output_data, indices_data).
                     let iw0 = start_index ow output_width input_width;
                         iw1 = end_index ow output_width input_width;
                         (maxval, maxindex) =
                           local_max (data input) (c * input_height * input_width)
                             input_width ih0 ih1 iw0 iw1
                     in (output_data[c * output_height * output_width + (oh * output_width + ow)
                           := maxval],
                         indices_data[c * output_height * output_width + (oh * output_width + ow)
                           := int (cast_index scalar_t maxindex)]))
                   [0..<output_width])
                [0..<output_height])
              [0..<channels]
              (data output, data indices)
      in (output\<lparr>data := output_data\<rparr>, indices\<lparr>data := indices_data\<rparr>))"

section \<open>Forward kernel, channels-last layout\<close>

text \<open>
  The buffers a work unit mutates: the output and indices buffers, and the per-thread index
  scratch of \<open>len\<close> lanes of \<^verbatim>\<open>integer_t\<close>. \<open>len\<close> is the largest multiple of the vector
  width below the channel count; channels below \<open>len\<close> go through the vector loop, the
  others through the scalar tail. A vector operation acts on each of its lanes alone
  (broadcast, load, store, compare, is-NaN, blend on the mask), so the vector loop is the
  loop over the lanes \<open>[0..<len]\<close> with the lane's operation as its body.
\<close>

record cl_buffers =
  output_data :: "fp list"
  indices_data :: "int list"
  index_buffer :: "int list"

text \<open>Pass I (source lines 149 to 160) for the output position whose lanes start at \<open>out\<close>.\<close>

definition cl_init :: "scalar_type \<Rightarrow> nat \<Rightarrow> nat \<Rightarrow> nat \<Rightarrow> nat \<Rightarrow> cl_buffers \<Rightarrow> cl_buffers" where
  "cl_init scalar_t out len channels index0 s =
     fold (\<lambda>d1 s. s\<lparr>indices_data := (indices_data s)[out + d1 := int index0],
                     output_data := (output_data s)[out + d1 := NegInf]\<rparr>)
       [len..<channels]
       (fold (\<lambda>d1 s. s\<lparr>index_buffer := (index_buffer s)[d1 := lane_cast scalar_t (int index0)],
                       output_data := (output_data s)[out + d1 := NegInf]\<rparr>)
          [0..<len] s)"

text \<open>
  Pass II (source lines 162 to 195): for each window position, the vector loop and then the
  scalar tail over the channels at \<open>input + in\<close>.
\<close>

definition cl_vec_lane ::
  "scalar_type \<Rightarrow> fp list \<Rightarrow> nat \<Rightarrow> nat \<Rightarrow> nat \<Rightarrow> nat \<Rightarrow> cl_buffers \<Rightarrow> cl_buffers" where
  "cl_vec_lane scalar_t input_data in_ptr out index d2 s =
     (let index_vec = lane_cast scalar_t (int index);
          val_vec = input_data ! (in_ptr + d2);
          maxindex_vec = index_buffer s ! d2;
          maxval_vec = output_data s ! (out + d2);
          mask = (fgt val_vec maxval_vec \<or> isnan val_vec);
          out_vec = (if mask then val_vec else maxval_vec);
          ind_vec = (if mask then index_vec else maxindex_vec)
      in s\<lparr>output_data := (output_data s)[out + d2 := out_vec],
            index_buffer := (index_buffer s)[d2 := ind_vec]\<rparr>)"

definition cl_tail_lane ::
  "fp list \<Rightarrow> nat \<Rightarrow> nat \<Rightarrow> nat \<Rightarrow> nat \<Rightarrow> cl_buffers \<Rightarrow> cl_buffers" where
  "cl_tail_lane input_data in_ptr out index d2 s =
     (let val = input_data ! (in_ptr + d2);
          maxindex = indices_data s ! (out + d2);
          maxval = output_data s ! (out + d2);
          mask = (fgt val maxval \<or> isnan val)
      in s\<lparr>output_data := (output_data s)[out + d2 := (if mask then val else maxval)],
            indices_data := (indices_data s)[out + d2 := (if mask then int index else maxindex)]\<rparr>)"

definition cl_reduce ::
  "scalar_type \<Rightarrow> fp list \<Rightarrow> nat \<Rightarrow> nat \<Rightarrow> nat \<Rightarrow> nat \<Rightarrow> nat \<Rightarrow> nat \<Rightarrow> nat \<Rightarrow> nat \<Rightarrow> nat \<Rightarrow> nat \<Rightarrow>
   cl_buffers \<Rightarrow> cl_buffers" where
  "cl_reduce scalar_t input_data n input_height input_width channels out len ih0 ih1 iw0 iw1 =
     fold (\<lambda>ih. fold (\<lambda>iw s.
             let in_ptr = n * input_height * input_width * channels
                          + ih * input_width * channels + iw * channels
             in fold (cl_tail_lane input_data in_ptr out (ih * input_width + iw)) [len..<channels]
                  (fold (cl_vec_lane scalar_t input_data in_ptr out (ih * input_width + iw))
                     [0..<len] s))
           [iw0..<iw1])
       [ih0..<ih1]"

text \<open>\<^verbatim>\<open>at::vec::convert<integer_t, int64_t>(index_buffer, ind, len)\<close> (source line 197).\<close>

definition cl_convert :: "nat \<Rightarrow> nat \<Rightarrow> cl_buffers \<Rightarrow> cl_buffers" where
  "cl_convert out len =
     fold (\<lambda>d s. s\<lparr>indices_data := (indices_data s)[out + d := index_buffer s ! d]\<rparr>) [0..<len]"

text \<open>
  The body of the loop over the work units (source lines 139 to 202): the window of output
  position \<open>i\<close>, the three passes on the lanes at \<open>out = i * channels\<close>.
\<close>

definition cl_work_unit ::
  "scalar_type \<Rightarrow> fp list \<Rightarrow> nat \<Rightarrow> nat \<Rightarrow> nat \<Rightarrow> nat \<Rightarrow> nat \<Rightarrow> nat \<Rightarrow> nat \<Rightarrow> nat \<Rightarrow>
   cl_buffers \<Rightarrow> cl_buffers" where
  "cl_work_unit scalar_t input_data nbatch channels input_height input_width
     output_height output_width len i s =
     (let (n, oh, ow) = data_index i nbatch output_height output_width;
          ih0 = start_index oh output_height input_height;
          ih1 = end_index oh output_height input_height;
          iw0 = start_index ow output_width input_width;
          iw1 = end_index ow output_width input_width;
          out = i * channels
      in cl_convert out len
           (cl_reduce scalar_t input_data n input_height input_width channels
              out len ih0 ih1 iw0 iw1
              (cl_init scalar_t out len channels (ih0 * input_width + iw0) s)))"

text \<open>
  \<^verbatim>\<open>cpu_adaptive_max_pool_channels_last<scalar_t>\<close>, the primary template. \<open>vec_size\<close> is
  \<^verbatim>\<open>Vec::size()\<close>, a constant of the target machine; the source's \<^verbatim>\<open>size\<close> is
  \<open>channels\<close>. The scratch buffer is allocated without initialisation; Pass I writes each of
  its lanes before Pass II reads it.
\<close>

definition cpu_adaptive_max_pool_channels_last ::
  "scalar_type \<Rightarrow> nat \<Rightarrow> fp tensor \<Rightarrow> int tensor \<Rightarrow> fp tensor \<Rightarrow> nat list \<Rightarrow>
   error + (fp tensor \<times> int tensor)" where
  "cpu_adaptive_max_pool_channels_last scalar_t vec_size output indices input output_size =
     (if length (sizes input) \<noteq> 4 then Inl ChannelsLastNeeds4Dims
      else
        let nbatch = sizes input ! 0;
            channels = sizes input ! 1;
            input_height = sizes input ! 2;
            input_width = sizes input ! 3;
            output_height = output_size ! 0;
            output_width = output_size ! 1
        in if \<not> int (input_height * input_width) \<le> lane_max scalar_t then Inl IndexLaneOverflow
           else
             let len = channels - channels mod vec_size;
                 s = fold (cl_work_unit scalar_t (data input) nbatch channels input_height
                             input_width output_height output_width len)
                       [0..<nbatch * output_height * output_width]
                       \<lparr>output_data = data output, indices_data = data indices,
                        index_buffer = replicate len 0\<rparr>
             in Inr (output\<lparr>data := output_data s\<rparr>, indices\<lparr>data := indices_data s\<rparr>))"

subsection \<open>The brain-float specialisation\<close>

text \<open>
  \<^verbatim>\<open>cpu_adaptive_max_pool_channels_last<at::BFloat16>\<close> keeps the running maxima as floats
  in a scratch array \<open>max\<close> of one float for each channel, uses \<^verbatim>\<open>int32_t\<close> index lanes, and
  writes the maxima to the output in a last pass. One brain-float vector is two float
  vectors; the vector loop treats both halves alike, lane by lane.
\<close>

record cl_buffers_bf16 = cl_buffers +
  max_arr :: "fp list"

text \<open>Pass I (source lines 277 to 288).\<close>

definition cl_bf16_init :: "nat \<Rightarrow> nat \<Rightarrow> nat \<Rightarrow> nat \<Rightarrow> cl_buffers_bf16 \<Rightarrow> cl_buffers_bf16" where
  "cl_bf16_init out len channels index0 s =
     fold (\<lambda>d1 s. s\<lparr>indices_data := (indices_data s)[out + d1 := int index0],
                     max_arr := (max_arr s)[d1 := NegInf]\<rparr>)
       [len..<channels]
       (fold (\<lambda>d1 s. s\<lparr>index_buffer := (index_buffer s)[d1 := lane_cast BFloat16 (int index0)],
                       max_arr := (max_arr s)[d1 := NegInf]\<rparr>)
          [0..<len] s)"

text \<open>Pass II (source lines 290 to 339).\<close>

definition cl_bf16_vec_lane ::
  "fp list \<Rightarrow> nat \<Rightarrow> nat \<Rightarrow> nat \<Rightarrow> cl_buffers_bf16 \<Rightarrow> cl_buffers_bf16" where
  "cl_bf16_vec_lane input_data in_ptr index d2 s =
     (let index_ivec = lane_cast BFloat16 (int index);
          val_fvec = input_data ! (in_ptr + d2);
          maxindex_ivec = index_buffer s ! d2;
          maxval_fvec = max_arr s ! d2;
          mask = (fgt val_fvec maxval_fvec \<or> isnan val_fvec);
          max_fvec = (if mask then val_fvec else maxval_fvec);
          ind_ivec = (if mask then index_ivec else maxindex_ivec)
      in s\<lparr>max_arr := (max_arr s)[d2 := max_fvec],
            index_buffer := (index_buffer s)[d2 := ind_ivec]\<rparr>)"

definition cl_bf16_tail_lane ::
  "fp list \<Rightarrow> nat \<Rightarrow> nat \<Rightarrow> nat \<Rightarrow> nat \<Rightarrow> cl_buffers_bf16 \<Rightarrow> cl_buffers_bf16" where
  "cl_bf16_tail_lane input_data in_ptr out index d2 s =
     (let val = input_data ! (in_ptr + d2);
          maxindex = indices_data s ! (out + d2);
          maxval = max_arr s ! d2;
          mask = (fgt val maxval \<or> isnan val)
      in s\<lparr>max_arr := (max_arr s)[d2 := (if mask then val else maxval)],
            indices_data := (indices_data s)[out + d2 := (if mask then int index else maxindex)]\<rparr>)"

definition cl_bf16_reduce ::
  "fp list \<Rightarrow> nat \<Rightarrow> nat \<Rightarrow> nat \<Rightarrow> nat \<Rightarrow> nat \<Rightarrow> nat \<Rightarrow> nat \<Rightarrow> nat \<Rightarrow> nat \<Rightarrow> nat \<Rightarrow>
   cl_buffers_bf16 \<Rightarrow> cl_buffers_bf16" where
  "cl_bf16_reduce input_data n input_height input_width channels out len ih0 ih1 iw0 iw1 =
     fold (\<lambda>ih. fold (\<lambda>iw s.
             let in_ptr = n * input_height * input_width * channels
                          + ih * input_width * channels + iw * channels
             in fold (cl_bf16_tail_lane input_data in_ptr out (ih * input_width + iw))
                  [len..<channels]
                  (fold (cl_bf16_vec_lane input_data in_ptr (ih * input_width + iw))
                     [0..<len] s))
           [iw0..<iw1])
       [ih0..<ih1]"

text \<open>Pass III (source lines 340 to 350): the maxima go to the output, vector loop then tail.\<close>

definition cl_bf16_store :: "nat \<Rightarrow> nat \<Rightarrow> nat \<Rightarrow> cl_buffers_bf16 \<Rightarrow> cl_buffers_bf16" where
  "cl_bf16_store out len channels s =
     fold (\<lambda>d3 s. s\<lparr>output_data := (output_data s)[out + d3 := max_arr s ! d3]\<rparr>) [len..<channels]
       (fold (\<lambda>d3 s. s\<lparr>output_data := (output_data s)[out + d3 := max_arr s ! d3]\<rparr>) [0..<len] s)"

text \<open>\<^verbatim>\<open>at::vec::convert<int32_t, int64_t>(index_buffer, ind, len)\<close> (source line 352).\<close>

definition cl_bf16_convert :: "nat \<Rightarrow> nat \<Rightarrow> cl_buffers_bf16 \<Rightarrow> cl_buffers_bf16" where
  "cl_bf16_convert out len =
     fold (\<lambda>d s. s\<lparr>indices_data := (indices_data s)[out + d := index_buffer s ! d]\<rparr>) [0..<len]"

text \<open>The body of the loop over the work units (source lines 267 to 357).\<close>

definition cl_bf16_work_unit ::
  "fp list \<Rightarrow> nat \<Rightarrow> nat \<Rightarrow> nat \<Rightarrow> nat \<Rightarrow> nat \<Rightarrow> nat \<Rightarrow> nat \<Rightarrow> nat \<Rightarrow>
   cl_buffers_bf16 \<Rightarrow> cl_buffers_bf16" where
  "cl_bf16_work_unit input_data nbatch channels input_height input_width
     output_height output_width len i s =
     (let (n, oh, ow) = data_index i nbatch output_height output_width;
          ih0 = start_index oh output_height input_height;
          ih1 = end_index oh output_height input_height;
          iw0 = start_index ow output_width input_width;
          iw1 = end_index ow output_width input_width;
          out = i * channels
      in cl_bf16_convert out len
           (cl_bf16_store out len channels
              (cl_bf16_reduce input_data n input_height input_width channels
                 out len ih0 ih1 iw0 iw1
                 (cl_bf16_init out len channels (ih0 * input_width + iw0) s))))"

definition cpu_adaptive_max_pool_channels_last_bf16 ::
  "nat \<Rightarrow> fp tensor \<Rightarrow> int tensor \<Rightarrow> fp tensor \<Rightarrow> nat list \<Rightarrow> error + (fp tensor \<times> int tensor)" where
  "cpu_adaptive_max_pool_channels_last_bf16 vec_size output indices input output_size =
     (if length (sizes input) \<noteq> 4 then Inl ChannelsLastNeeds4Dims
      else
        let nbatch = sizes input ! 0;
            channels = sizes input ! 1;
            input_height = sizes input ! 2;
            input_width = sizes input ! 3;
            output_height = output_size ! 0;
            output_width = output_size ! 1
        in if \<not> int (input_height * input_width) \<le> lane_max BFloat16 then Inl IndexLaneOverflow
           else
             let len = channels - channels mod vec_size;
                 s = fold (cl_bf16_work_unit (data input) nbatch channels input_height
                             input_width output_height output_width len)
                       [0..<nbatch * output_height * output_width]
                       \<lparr>output_data = data output, indices_data = data indices,
                        index_buffer = replicate len 0, max_arr = replicate channels NegInf\<rparr>
             in Inr (output\<lparr>data := output_data s\<rparr>, indices\<lparr>data := indices_data s\<rparr>))"

section \<open>Forward dispatch\<close>

text \<open>
  \<^verbatim>\<open>adaptive_max_pool2d_kernel_impl\<close>. The contiguous kernel is instantiated with a float
  accumulator for brain-float; the channels-last kernel resolves to its specialisation.
\<close>

definition adaptive_max_pool2d_kernel_impl ::
  "scalar_type \<Rightarrow> nat \<Rightarrow> fp tensor \<Rightarrow> int tensor \<Rightarrow> fp tensor \<Rightarrow> nat list \<Rightarrow>
   error + (fp tensor \<times> int tensor)" where
  "adaptive_max_pool2d_kernel_impl scalar_t vec_size output indices input output_size =
     (case suggest_memory_format input of
        Contiguous \<Rightarrow> Inr (cpu_adaptive_max_pool scalar_t output indices input output_size)
      | ChannelsLast \<Rightarrow>
          (if scalar_t = BFloat16
           then cpu_adaptive_max_pool_channels_last_bf16 vec_size output indices input output_size
           else cpu_adaptive_max_pool_channels_last scalar_t vec_size output indices input
                  output_size)
      | _ \<Rightarrow> Inl UnsupportedMemoryFormat)"

text \<open>
  \<^verbatim>\<open>adaptive_max_pool2d_out_cpu\<close>, the forward dispatch shell: the three checks, the two
  allocations, the kernel.
\<close>

definition adaptive_max_pool2d_out_cpu ::
  "scalar_type \<Rightarrow> nat \<Rightarrow> fp tensor \<Rightarrow> nat list \<Rightarrow> error + (fp tensor \<times> int tensor)" where
  "adaptive_max_pool2d_out_cpu scalar_t vec_size input output_size =
     (let ndim = length (sizes input)
      in if \<not> (ndim = 3 \<or> ndim = 4) then Inl ExpectedRank3or4
         else case find (\<lambda>i. \<not> 0 < sizes input ! i) [1..<ndim] of
           Some i \<Rightarrow> Inl (EmptyDimension i)
         | None \<Rightarrow>
             if \<not> length output_size = 2 then Inl OutputSizeArity
             else
               let dimH = (if ndim = 4 then 2 else 1);
                   sizeB = (if ndim = 4 then sizes input ! 0 else 1);
                   sizeD = sizes input ! (dimH - 1);
                   osizeH = output_size ! 0;
                   osizeW = output_size ! 1;
                   output = (if ndim = 3
                     then at_empty [sizeD, osizeH, osizeW] Contiguous (Num 0)
                     else at_empty [sizeB, sizeD, osizeH, osizeW] (suggest_memory_format input)
                            (Num 0));
                   indices = (if ndim = 3
                     then at_empty [sizeD, osizeH, osizeW] Contiguous 0
                     else at_empty [sizeB, sizeD, osizeH, osizeW] (suggest_memory_format input) 0)
               in adaptive_max_pool2d_kernel_impl scalar_t vec_size output indices input
                    output_size)"

section \<open>Backward kernels\<close>

text \<open>
  The backward kernels only add elements; they are generic in the element type, and the
  addition of \<^verbatim>\<open>scalar_t\<close> is the argument \<open>add\<close>.

  \<^verbatim>\<open>grad_input_ptr[maxindex] += v\<close> with an index read from the indices tensor: inside the
  buffer it adds; outside the buffer the behaviour of the source is undefined, and the model
  stops with \<open>OutOfBounds\<close>, which is not an exception of the source. A loop whose body can
  stop is \<open>loop\<close>.
\<close>

datatype fault = OutOfBounds | Raised error

primrec loop :: "'i list \<Rightarrow> ('i \<Rightarrow> 's \<Rightarrow> fault + 's) \<Rightarrow> 's \<Rightarrow> fault + 's" where
  "loop [] body s = Inr s"
| "loop (i # is) body s = (case body i s of Inl e \<Rightarrow> Inl e | Inr s' \<Rightarrow> loop is body s')"

definition add_at :: "('a \<Rightarrow> 'a \<Rightarrow> 'a) \<Rightarrow> 'a list \<Rightarrow> int \<Rightarrow> 'a \<Rightarrow> fault + 'a list" where
  "add_at add buf off v =
     (if 0 \<le> off \<and> off < int (length buf)
      then Inr (buf[nat off := add (buf ! nat off) v])
      else Inl OutOfBounds)"

text \<open>\<^verbatim>\<open>cpu_adaptive_max_pool_backward<scalar_t>\<close>.\<close>

definition cpu_adaptive_max_pool_backward ::
  "('a \<Rightarrow> 'a \<Rightarrow> 'a) \<Rightarrow> 'a tensor \<Rightarrow> 'a tensor \<Rightarrow> int tensor \<Rightarrow> fault + 'a tensor" where
  "cpu_adaptive_max_pool_backward add grad_input grad_output indices =
     (let ndim = length (sizes grad_output);
          channels = (if ndim = 3 then sizes grad_output ! 0
                      else sizes grad_output ! 0 * sizes grad_output ! 1);
          input_height = sizes grad_input ! (length (sizes grad_input) - 2);
          input_width = sizes grad_input ! (length (sizes grad_input) - 1);
          output_height = sizes grad_output ! (ndim - 2);
          output_width = sizes grad_output ! (ndim - 1)
      in case
           loop [0..<channels] (\<lambda>c.
             loop [0..<output_height] (\<lambda>oh.
               loop [0..<output_width] (\<lambda>ow grad_input_data.
                 let index = oh * output_width + ow;
                     maxindex = data indices ! (c * output_height * output_width + index)
                 in add_at add grad_input_data
                      (int (c * input_height * input_width) + maxindex)
                      (data grad_output ! (c * output_height * output_width + index)))))
             (data grad_input)
         of Inl e \<Rightarrow> Inl e
          | Inr grad_input_data \<Rightarrow> Inr (grad_input\<lparr>data := grad_input_data\<rparr>))"

text \<open>\<^verbatim>\<open>cpu_adaptive_max_pool_backward_channels_last<scalar_t>\<close>.\<close>

definition cpu_adaptive_max_pool_backward_channels_last ::
  "('a \<Rightarrow> 'a \<Rightarrow> 'a) \<Rightarrow> 'a tensor \<Rightarrow> 'a tensor \<Rightarrow> int tensor \<Rightarrow> fault + 'a tensor" where
  "cpu_adaptive_max_pool_backward_channels_last add grad_input grad_output indices =
     (if length (sizes grad_output) \<noteq> 4 then Inl (Raised ChannelsLastNeeds4Dims)
      else
        let nbatch = sizes grad_input ! 0;
            channels = sizes grad_input ! 1;
            input_height = sizes grad_input ! 2;
            input_width = sizes grad_input ! 3;
            output_height = sizes grad_output ! 2;
            output_width = sizes grad_output ! 3
        in case
             loop [0..<nbatch] (\<lambda>n.
               loop [0..<output_height] (\<lambda>oh.
                 loop [0..<output_width] (\<lambda>ow.
                   loop [0..<channels] (\<lambda>c grad_input_data.
                     let gout = n * output_height * output_width * channels
                                + oh * output_width * channels + ow * channels;
                         maxindex = data indices ! (gout + c)
                     in add_at add grad_input_data
                          (int (n * input_height * input_width * channels)
                           + (maxindex * int channels + int c))
                          (data grad_output ! (gout + c))))))
               (data grad_input)
           of Inl e \<Rightarrow> Inl e
            | Inr grad_input_data \<Rightarrow> Inr (grad_input\<lparr>data := grad_input_data\<rparr>))"

section \<open>Vocabulary of the proofs\<close>

text \<open>
  \<open>writes_block I proj F b m g\<close>: on a state that satisfies the invariant \<open>I\<close> and whose
  buffer \<open>proj\<close> holds the block of \<open>m\<close> cells from offset \<open>b\<close>, the state transformer \<open>F\<close>
  keeps the invariant and the length of the buffer, leaves every cell outside the block as
  it was, and leaves \<open>g j\<close> in cell \<open>j\<close> of the block, whatever was there before.
\<close>

definition writes_block ::
  "('s \<Rightarrow> bool) \<Rightarrow> ('s \<Rightarrow> 'a list) \<Rightarrow> ('s \<Rightarrow> 's) \<Rightarrow> nat \<Rightarrow> nat \<Rightarrow> (nat \<Rightarrow> 'a) \<Rightarrow> bool" where
  "writes_block I proj F b m g \<longleftrightarrow>
     (\<forall>s. I s \<longrightarrow> b + m \<le> length (proj s) \<longrightarrow>
        I (F s) \<and> length (proj (F s)) = length (proj s)
        \<and> (\<forall>k. \<not> (b \<le> k \<and> k < b + m) \<longrightarrow> proj (F s) ! k = proj s ! k)
        \<and> (\<forall>j<m. proj (F s) ! (b + j) = g j))"

text \<open>The shape a kernel reads off a 3D or 4D tensor: planes (N * C, or C), height, width.\<close>

definition planes :: "'a tensor \<Rightarrow> nat" where
  "planes t = (if length (sizes t) = 3 then sizes t ! 0 else sizes t ! 0 * sizes t ! 1)"

definition height :: "'a tensor \<Rightarrow> nat" where
  "height t = sizes t ! (length (sizes t) - 2)"

definition width :: "'a tensor \<Rightarrow> nat" where
  "width t = sizes t ! (length (sizes t) - 1)"

text \<open>
  The scan of the window of output cell \<open>(oh, ow)\<close> in the plane that starts at offset
  \<open>plane\<close> of a row-major buffer, as the contiguous kernel makes it.
\<close>

definition window_max ::
  "fp list \<Rightarrow> nat \<Rightarrow> nat \<Rightarrow> nat \<Rightarrow> nat \<Rightarrow> nat \<Rightarrow> nat \<Rightarrow> nat \<Rightarrow> fp \<times> nat" where
  "window_max input_data plane H W oH oW oh ow =
     local_max input_data plane W
       (start_index oh oH H) (end_index oh oH H) (start_index ow oW W) (end_index ow oW W)"

text \<open>
  The flat indices of a window in scan order (rows outside, columns inside), and the scan
  of a list of flat indices \<open>js\<close> over the values \<open>x j\<close>.
\<close>

definition window_positions :: "nat \<Rightarrow> nat \<Rightarrow> nat \<Rightarrow> nat \<Rightarrow> nat \<Rightarrow> nat list" where
  "window_positions W ih0 ih1 iw0 iw1 =
     concat (map (\<lambda>ih. map (\<lambda>iw. ih * W + iw) [iw0..<iw1]) [ih0..<ih1])"

definition scan :: "(nat \<Rightarrow> fp) \<Rightarrow> nat list \<Rightarrow> fp \<times> nat \<Rightarrow> fp \<times> nat" where
  "scan x js = fold (\<lambda>j. scan_step (x j) j) js"

text \<open>
  The scan of the window of output position \<open>(n, oh, ow)\<close> for channel \<open>d\<close> of a
  channels-last buffer, as the channels-last kernels make it.
\<close>

definition window_max_cl ::
  "fp list \<Rightarrow> nat \<Rightarrow> nat \<Rightarrow> nat \<Rightarrow> nat \<Rightarrow> nat \<Rightarrow> nat \<Rightarrow> nat \<Rightarrow> nat \<Rightarrow> nat \<Rightarrow> fp \<times> nat" where
  "window_max_cl input_data C H W oH oW n oh ow d =
     scan (\<lambda>j. input_data ! (n * H * W * C + j * C + d))
       (window_positions W (start_index oh oH H) (end_index oh oH H)
          (start_index ow oW W) (end_index ow oW W))
       (NegInf, start_index oh oH H * W + start_index ow oW W)"

text \<open>
  The state of channel \<open>d\<close> of the work unit whose lanes start at \<open>out\<close>: the running maximum
  and its index, which is in the scratch for a vector lane and in the indices buffer for a
  tail lane. The buffers are long enough for the work unit when \<open>cl_ok\<close> holds; \<open>cl_frame\<close>
  relates two states that differ only inside the work unit's block and in the scratch.
\<close>

definition lane :: "nat \<Rightarrow> nat \<Rightarrow> cl_buffers \<Rightarrow> nat \<Rightarrow> fp \<times> int" where
  "lane out len s d =
     (output_data s ! (out + d),
      if d < len then index_buffer s ! d else indices_data s ! (out + d))"

definition cl_ok :: "nat \<Rightarrow> nat \<Rightarrow> nat \<Rightarrow> 'a cl_buffers_scheme \<Rightarrow> bool" where
  "cl_ok out C len s \<longleftrightarrow>
     length (index_buffer s) = len \<and> out + C \<le> length (output_data s)
     \<and> out + C \<le> length (indices_data s)"

definition cl_frame ::
  "nat \<Rightarrow> nat \<Rightarrow> 'a cl_buffers_scheme \<Rightarrow> 'a cl_buffers_scheme \<Rightarrow> bool" where
  "cl_frame out C s s' \<longleftrightarrow>
     length (index_buffer s') = length (index_buffer s)
     \<and> length (output_data s') = length (output_data s)
     \<and> length (indices_data s') = length (indices_data s)
     \<and> (\<forall>k. \<not> (out \<le> k \<and> k < out + C) \<longrightarrow>
          output_data s' ! k = output_data s ! k \<and> indices_data s' ! k = indices_data s ! k)"

text \<open>
  The invariant of the loop over the work units: the scratch keeps its \<open>len\<close> lanes and the
  output and indices buffers have one length. \<open>unit_max_cl i d\<close> is the scan for channel
  \<open>d\<close> of work unit \<open>i\<close>.
\<close>

definition cl_inv :: "nat \<Rightarrow> cl_buffers \<Rightarrow> bool" where
  "cl_inv len s \<longleftrightarrow>
     length (index_buffer s) = len \<and> length (indices_data s) = length (output_data s)"

definition unit_max_cl ::
  "fp list \<Rightarrow> nat \<Rightarrow> nat \<Rightarrow> nat \<Rightarrow> nat \<Rightarrow> nat \<Rightarrow> nat \<Rightarrow> nat \<Rightarrow> nat \<Rightarrow> fp \<times> nat" where
  "unit_max_cl input_data N C H W oH oW i d =
     (case data_index i N oH oW of (n, oh, ow) \<Rightarrow> window_max_cl input_data C H W oH oW n oh ow d)"

text \<open>
  The same for the brain-float specialisation, whose running maximum is in the float
  scratch \<open>max\<close> of one element for each channel.
\<close>

definition lane_bf16 :: "nat \<Rightarrow> nat \<Rightarrow> cl_buffers_bf16 \<Rightarrow> nat \<Rightarrow> fp \<times> int" where
  "lane_bf16 out len s d =
     (max_arr s ! d, if d < len then index_buffer s ! d else indices_data s ! (out + d))"

definition cl_bf16_ok :: "nat \<Rightarrow> nat \<Rightarrow> nat \<Rightarrow> cl_buffers_bf16 \<Rightarrow> bool" where
  "cl_bf16_ok out C len s \<longleftrightarrow> cl_ok out C len s \<and> length (max_arr s) = C"

definition cl_bf16_inv :: "nat \<Rightarrow> nat \<Rightarrow> cl_buffers_bf16 \<Rightarrow> bool" where
  "cl_bf16_inv len C s \<longleftrightarrow>
     length (index_buffer s) = len \<and> length (max_arr s) = C
     \<and> length (indices_data s) = length (output_data s)"

text \<open>
  \<open>adds_to add F L contrib\<close>: on a buffer of length \<open>L\<close>, the step \<open>F\<close> does not stop, keeps
  the length, and leaves in each cell \<open>k\<close> what was there with the elements of \<open>contrib k\<close>
  added to it one after the other, from the left.
\<close>

definition adds_to ::
  "('a \<Rightarrow> 'a \<Rightarrow> 'a) \<Rightarrow> ('a list \<Rightarrow> fault + 'a list) \<Rightarrow> nat \<Rightarrow> (nat \<Rightarrow> 'a list) \<Rightarrow> bool" where
  "adds_to add F L contrib \<longleftrightarrow>
     (\<forall>buf. length buf = L \<longrightarrow>
        (\<exists>buf'. F buf = Inr buf' \<and> length buf' = L
           \<and> (\<forall>k<L. buf' ! k = foldl add (buf ! k) (contrib k))))"

text \<open>
  The buffer of \<^verbatim>\<open>x.contiguous(at::MemoryFormat::ChannelsLast)\<close> for a 4D tensor whose
  row-major buffer is \<open>xs\<close>: element \<open>(n, c, ih, iw)\<close> moves from offset
  \<open>(n * C + c) * (H * W) + (ih * W + iw)\<close> to offset \<open>n * (H * W * C) + (ih * W + iw) * C + c\<close>.
\<close>

definition channels_last_of :: "nat \<Rightarrow> nat \<Rightarrow> nat \<Rightarrow> nat \<Rightarrow> 'a list \<Rightarrow> 'a list" where
  "channels_last_of N C H W xs =
     map (\<lambda>k. xs ! ((k div (H * W * C) * C + k mod C) * (H * W) + k div C mod (H * W)))
       [0..<N * (H * W * C)]"

text \<open>
  The gradients that a backward kernel adds into one cell of the gradient of the input, in
  the order of its loops: those of the output cells \<open>(oh, ow)\<close> of the plane whose stored
  index is \<open>j\<close>. For the contiguous kernel the plane is plane \<open>c\<close> of the row-major buffers;
  for the channels-last kernel it is channel \<open>c\<close> of batch element \<open>n\<close> of buffers with \<open>C\<close>
  channels.
\<close>

definition selected :: "'a tensor \<Rightarrow> int tensor \<Rightarrow> nat \<Rightarrow> nat \<Rightarrow> 'a list" where
  "selected grad_output indices c j =
     (let oH = height grad_output; oW = width grad_output
      in [data grad_output ! (c * (oH * oW) + (oh * oW + ow)).
            oh \<leftarrow> [0..<oH], ow \<leftarrow> [0..<oW],
            data indices ! (c * (oH * oW) + (oh * oW + ow)) = int j])"

definition selected_channels_last ::
  "nat \<Rightarrow> 'a tensor \<Rightarrow> int tensor \<Rightarrow> nat \<Rightarrow> nat \<Rightarrow> nat \<Rightarrow> 'a list" where
  "selected_channels_last C grad_output indices n c j =
     (let oH = sizes grad_output ! 2; oW = sizes grad_output ! 3
      in [data grad_output ! (n * (oH * oW * C) + ((oh * oW + ow) * C + c)).
            oh \<leftarrow> [0..<oH], ow \<leftarrow> [0..<oW],
            data indices ! (n * (oH * oW * C) + ((oh * oW + ow) * C + c)) = int j])"

text \<open>
  The values of an element type are numbers, and its addition \<open>add\<close> and multiplication
  \<open>mul\<close> return the exact sum and product or a rounded one. \<open>combination\<close> is \<open>\<alpha> a + \<beta> b\<close>
  in the arithmetic of the element type; \<open>exact_combination\<close> says that none of its three
  operations rounds, and \<open>exact_sum add acc xs\<close> that none of the additions of
  \<open>foldl add acc xs\<close> does.
\<close>

definition combination :: "('a \<Rightarrow> 'a \<Rightarrow> 'a) \<Rightarrow> ('a \<Rightarrow> 'a \<Rightarrow> 'a) \<Rightarrow> 'a \<Rightarrow> 'a \<Rightarrow> 'a \<Rightarrow> 'a \<Rightarrow> 'a" where
  "combination add mul \<alpha> \<beta> a b = add (mul \<alpha> a) (mul \<beta> b)"

definition exact_combination ::
  "('a \<Rightarrow> 'a \<Rightarrow> 'a) \<Rightarrow> ('a \<Rightarrow> 'a \<Rightarrow> 'a) \<Rightarrow> 'a \<Rightarrow> 'a \<Rightarrow> 'a::semiring_0 \<Rightarrow> 'a \<Rightarrow> bool" where
  "exact_combination add mul \<alpha> \<beta> a b \<longleftrightarrow>
     mul \<alpha> a = \<alpha> * a \<and> mul \<beta> b = \<beta> * b \<and> add (mul \<alpha> a) (mul \<beta> b) = \<alpha> * a + \<beta> * b"

primrec exact_sum :: "('a \<Rightarrow> 'a \<Rightarrow> 'a) \<Rightarrow> 'a::semiring_0 \<Rightarrow> 'a list \<Rightarrow> bool" where
  "exact_sum add acc [] \<longleftrightarrow> True"
| "exact_sum add acc (x # xs) \<longleftrightarrow> add acc x = acc + x \<and> exact_sum add (add acc x) xs"

chapter \<open>Properties\<close>

section \<open>Window bounds\<close>

lemma ceil_div_ge: "0 < b \<Longrightarrow> x \<le> ((x + b - 1) div b) * (b::nat)"
proof -
  assume b: "0 < b"
  have "(x + b - 1) div b * b = (x + b - 1) - (x + b - 1) mod b"
    by (simp add: minus_mod_eq_div_mult)
  moreover have "(x + b - 1) mod b < b"
    using b by simp
  ultimately show ?thesis using b by linarith
qed

lemma start_lt_end: "0 < b \<Longrightarrow> 0 < c \<Longrightarrow> start_index a b c < end_index a b c"
proof -
  assume b: "0 < b" and c: "0 < c"
  have 1: "start_index a b c * b \<le> a * c"
    by (simp add: start_index_def)
  have 2: "(a + 1) * c \<le> end_index a b c * b"
    unfolding end_index_def by (rule ceil_div_ge [OF b])
  have "a * c < (a + 1) * c" using c by simp
  with 1 2 have "start_index a b c * b < end_index a b c * b" by linarith
  then show ?thesis by simp
qed

lemma end_le: "0 < b \<Longrightarrow> a < b \<Longrightarrow> end_index a b c \<le> c"
proof -
  assume b: "0 < b" and a: "a < b"
  have "Suc a \<le> b" using a by simp
  then have "Suc a * c \<le> b * c" by (rule mult_le_mono1)
  then have "(a + 1) * c + b - 1 \<le> c * b + (b - 1)" using b by (simp add: mult.commute)
  then have "end_index a b c \<le> (c * b + (b - 1)) div b"
    unfolding end_index_def by (rule div_le_mono)
  also have "\<dots> = c" using b by (subst div_mult_self3) simp_all
  finally show ?thesis .
qed

lemma window_covers:
  assumes b: "0 < b" and c: "0 < c" and x: "x < c"
  shows "\<exists>a<b. start_index a b c \<le> x \<and> x < end_index a b c"
proof -
  define a where "a = (x * b) div c"
  have ab: "a < b"
  proof -
    have "x * b < b * c" using x b by (simp add: mult.commute)
    then show ?thesis unfolding a_def using c
      by (simp add: less_mult_imp_div_less)
  qed
  have "a * c \<le> x * b" by (simp add: a_def)
  then have "(a * c) div b \<le> (x * b) div b" by (rule div_le_mono)
  then have s: "start_index a b c \<le> x" using b by (simp add: start_index_def)
  have "x * b < (a + 1) * c"
    unfolding a_def using c by (metis Suc_eq_plus1 dividend_less_div_times mult.commute mult_Suc)
  also have "\<dots> \<le> end_index a b c * b"
    unfolding end_index_def by (rule ceil_div_ge [OF b])
  finally have "x < end_index a b c" using b by simp
  with ab s show ?thesis by blast
qed

text \<open>
  C6. For output extent \<open>b \<ge> 1\<close> and input extent \<open>c \<ge> 1\<close>, every window
  \<open>[start_index a b c, end_index a b c)\<close> with \<open>a < b\<close> holds at least one position and
  lies inside \<open>[0, c)\<close>, and the windows together cover \<open>[0, c)\<close>.
\<close>

theorem window_tiling:
  "0 < b \<Longrightarrow> 0 < c \<Longrightarrow>
   (\<forall>a<b. start_index a b c < end_index a b c \<and> end_index a b c \<le> c)
   \<and> (\<Union>a<b. {start_index a b c ..< end_index a b c}) = {0..<c}"
proof -
  assume b: "0 < b" and c: "0 < c"
  have 1: "\<forall>a<b. start_index a b c < end_index a b c \<and> end_index a b c \<le> c"
    using start_lt_end [OF b c] end_le [OF b] by blast
  have "(\<Union>a<b. {start_index a b c ..< end_index a b c}) \<subseteq> {0..<c}"
    using 1 by fastforce
  moreover have "{0..<c} \<subseteq> (\<Union>a<b. {start_index a b c ..< end_index a b c})"
  proof
    fix x assume "x \<in> {0..<c}"
    then have "x < c" by simp
    from window_covers [OF b c this] show "x \<in> (\<Union>a<b. {start_index a b c ..< end_index a b c})"
      by auto
  qed
  ultimately show ?thesis using 1 by blast
qed

text \<open>
  The theorem at output extent 2 and input extent 3, where 2 does not divide 3: the windows
  are \<open>[0, 2)\<close> and \<open>[1, 3)\<close>, which overlap in position 1.
\<close>

theorem window_tiling_witness:
  "(0::nat) < 2 \<and> (0::nat) < 3
   \<and> start_index 0 2 3 < end_index 0 2 3 \<and> end_index 0 2 3 \<le> 3
   \<and> start_index 1 2 3 < end_index 1 2 3 \<and> end_index 1 2 3 \<le> 3
   \<and> (\<Union>a<2. {start_index a 2 3 ..< end_index a 2 3}) = {0..<3}
   \<and> {start_index 0 2 3 ..< end_index 0 2 3} = {0..<2}
   \<and> {start_index 1 2 3 ..< end_index 1 2 3} = {1..<3}"
proof -
  have h: "(0::nat) < 2" "(0::nat) < 3" by simp_all
  from window_tiling [OF h]
  have each: "\<forall>a<2. start_index a 2 3 < end_index a 2 3 \<and> end_index a 2 3 \<le> 3"
    and cover: "(\<Union>a<2. {start_index a 2 3 ..< end_index a 2 3}) = {0..<3}"
    by blast+
  from each have "start_index 0 2 3 < end_index 0 2 3 \<and> end_index 0 2 3 \<le> 3"
    and "start_index 1 2 3 < end_index 1 2 3 \<and> end_index 1 2 3 \<le> 3"
    by simp_all
  moreover have "{start_index 0 2 3 ..< end_index 0 2 3} = {0..<2}"
    and "{start_index 1 2 3 ..< end_index 1 2 3} = {1..<3}"
    by (simp_all add: start_index_def end_index_def)
  ultimately show ?thesis using cover by simp
qed

section \<open>Loops that write a buffer block by block\<close>

lemma writes_blockI:
  assumes "\<And>s. I s \<Longrightarrow> b + m \<le> length (proj s) \<Longrightarrow> I (F s)"
    and "\<And>s. I s \<Longrightarrow> b + m \<le> length (proj s) \<Longrightarrow> length (proj (F s)) = length (proj s)"
    and "\<And>s k. I s \<Longrightarrow> b + m \<le> length (proj s) \<Longrightarrow> \<not> (b \<le> k \<and> k < b + m) \<Longrightarrow>
           proj (F s) ! k = proj s ! k"
    and "\<And>s j. I s \<Longrightarrow> b + m \<le> length (proj s) \<Longrightarrow> j < m \<Longrightarrow> proj (F s) ! (b + j) = g j"
  shows "writes_block I proj F b m g"
  unfolding writes_block_def using assms by blast

lemma writes_blockD:
  assumes "writes_block I proj F b m g" and "I s" and "b + m \<le> length (proj s)"
  shows "I (F s)"
    and "length (proj (F s)) = length (proj s)"
    and "\<And>k. \<not> (b \<le> k \<and> k < b + m) \<Longrightarrow> proj (F s) ! k = proj s ! k"
    and "\<And>j. j < m \<Longrightarrow> proj (F s) ! (b + j) = g j"
  using assms unfolding writes_block_def by blast+

lemma fold_writes_block:
  assumes step: "\<And>i. i < n \<Longrightarrow> writes_block I proj (F i) (b + i * m) m (g i)"
  shows "writes_block I proj (fold F [0..<n]) b (n * m) (\<lambda>k. g (k div m) (k mod m))"
  using step
proof (induction n)
  case 0
  show ?case by (rule writes_blockI) simp_all
next
  case (Suc n)
  have IH: "writes_block I proj (fold F [0..<n]) b (n * m) (\<lambda>k. g (k div m) (k mod m))"
    using Suc by simp
  have last: "writes_block I proj (F n) (b + n * m) m (g n)"
    using Suc.prems by simp
  show ?case
  proof (rule writes_blockI)
    fix s assume I: "I s" and len: "b + Suc n * m \<le> length (proj s)"
    let ?s = "fold F [0..<n] s"
    have len0: "b + n * m \<le> length (proj s)" using len by simp
    note A = writes_blockD [OF IH I len0]
    have len1: "b + n * m + m \<le> length (proj ?s)" using len A(2) by simp
    note B = writes_blockD [OF last A(1) len1]
    show "I (fold F [0..<Suc n] s)" using B(1) by simp
    show "length (proj (fold F [0..<Suc n] s)) = length (proj s)" using A(2) B(2) by simp
    { fix k assume k: "\<not> (b \<le> k \<and> k < b + Suc n * m)"
      then have "\<not> (b + n * m \<le> k \<and> k < b + n * m + m)" and "\<not> (b \<le> k \<and> k < b + n * m)"
        by auto
      then show "proj (fold F [0..<Suc n] s) ! k = proj s ! k"
        using A(3) B(3) by simp }
    { fix j assume j: "j < Suc n * m"
      show "proj (fold F [0..<Suc n] s) ! (b + j) = g (j div m) (j mod m)"
      proof (cases "j < n * m")
        case True
        then have "\<not> (b + n * m \<le> b + j \<and> b + j < b + n * m + m)" by simp
        then have "proj (F n ?s) ! (b + j) = proj ?s ! (b + j)" by (rule B(3))
        then show ?thesis using A(4) [OF True] by simp
      next
        case False
        define j' where "j' = j - n * m"
        have j': "j = n * m + j'" "j' < m" using False j by (simp_all add: j'_def)
        have "proj (F n ?s) ! (b + n * m + j') = g n j'" by (rule B(4) [OF j'(2)])
        moreover have "j div m = n" "j mod m = j'" using j' by simp_all
        ultimately show ?thesis using j'(1) by (simp add: add.assoc)
      qed }
  qed
qed


lemma cell_offset_less:
  assumes "oh < A" and "ow < (B::nat)"
  shows "oh * B + ow < A * B"
proof -
  have "oh * B + ow < Suc oh * B" using assms(2) by simp
  also have "\<dots> \<le> A * B" using assms(1) by (intro mult_le_mono1) simp
  finally show ?thesis .
qed

lemma plane_offset_less:
  assumes "c < C" and "r < (m::nat)"
  shows "c * m + r < C * m"
  using cell_offset_less [OF assms] .

lemma cell_offset_div_mod:
  assumes "oh < A" and "ow < (B::nat)"
  shows "(c * (A * B) + oh * B + ow) div (A * B) = c"
    and "(c * (A * B) + oh * B + ow) mod (A * B) div B = oh"
    and "(c * (A * B) + oh * B + ow) mod (A * B) mod B = ow"
proof -
  have r: "oh * B + ow < A * B" by (rule cell_offset_less [OF assms])
  have "c * (A * B) + oh * B + ow = c * (A * B) + (oh * B + ow)" by simp
  then show "(c * (A * B) + oh * B + ow) div (A * B) = c"
    using r by (metis add.commute div_mult_self3 div_less add.right_neutral not_less_zero mult_is_0 less_nat_zero_code)
  have m: "(c * (A * B) + oh * B + ow) mod (A * B) = oh * B + ow"
    using r by (simp add: add.assoc)
  show "(c * (A * B) + oh * B + ow) mod (A * B) div B = oh"
    using assms(2) by (simp add: m)
  show "(c * (A * B) + oh * B + ow) mod (A * B) mod B = ow"
    using assms(2) by (simp add: m)
qed

lemma nest3_writes_block:
  assumes cell: "\<And>c oh ow. c < C \<Longrightarrow> oh < A \<Longrightarrow> ow < B \<Longrightarrow>
     writes_block I proj (F c oh ow) (c * (A * B) + oh * B + ow) 1 (\<lambda>_. v c oh ow)"
  shows "writes_block I proj (fold (\<lambda>c. fold (\<lambda>oh. fold (F c oh) [0..<B]) [0..<A]) [0..<C])
           0 (C * (A * B)) (\<lambda>k. v (k div (A * B)) (k mod (A * B) div B) (k mod (A * B) mod B))"
proof -
  have row: "writes_block I proj (fold (F c oh) [0..<B]) (c * (A * B) + oh * B) B (v c oh)"
    if "c < C" "oh < A" for c oh
  proof -
    have "writes_block I proj (fold (F c oh) [0..<B]) (c * (A * B) + oh * B) (B * 1)
            (\<lambda>k. (\<lambda>ow _. v c oh ow) (k div 1) (k mod 1))"
      by (rule fold_writes_block) (use cell [OF that] in simp)
    then show ?thesis by simp
  qed
  have plane: "writes_block I proj (fold (\<lambda>oh. fold (F c oh) [0..<B]) [0..<A]) (c * (A * B)) (A * B)
                 (\<lambda>k. v c (k div B) (k mod B))"
    if "c < C" for c
    by (rule fold_writes_block) (use row [OF that] in simp)
  have "writes_block I proj (fold (\<lambda>c. fold (\<lambda>oh. fold (F c oh) [0..<B]) [0..<A]) [0..<C])
          0 (C * (A * B))
          (\<lambda>k. (\<lambda>c k. v c (k div B) (k mod B)) (k div (A * B)) (k mod (A * B)))"
    by (rule fold_writes_block) (use plane in simp)
  then show ?thesis by simp
qed

lemma nest3_cell:
  assumes cell: "\<And>c oh ow. c < C \<Longrightarrow> oh < A \<Longrightarrow> ow < B \<Longrightarrow>
     writes_block I proj (F c oh ow) (c * (A * B) + oh * B + ow) 1 (\<lambda>_. v c oh ow)"
    and "I s" and "C * (A * B) \<le> length (proj s)"
    and "c < C" and "oh < A" and "ow < B"
  shows "proj (fold (\<lambda>c. fold (\<lambda>oh. fold (F c oh) [0..<B]) [0..<A]) [0..<C] s)
           ! (c * (A * B) + oh * B + ow) = v c oh ow"
proof -
  have k: "c * (A * B) + oh * B + ow < C * (A * B)"
    using plane_offset_less [OF \<open>c < C\<close> cell_offset_less [OF \<open>oh < A\<close> \<open>ow < B\<close>]]
    by (simp add: add.assoc)
  have wb: "writes_block I proj (fold (\<lambda>c. fold (\<lambda>oh. fold (F c oh) [0..<B]) [0..<A]) [0..<C])
           0 (C * (A * B)) (\<lambda>k. v (k div (A * B)) (k mod (A * B) div B) (k mod (A * B) mod B))"
    by (rule nest3_writes_block) (rule cell)
  have len: "0 + C * (A * B) \<le> length (proj s)" using assms(3) by simp
  from writes_blockD(4) [OF wb \<open>I s\<close> len k]
  show ?thesis
    by (simp add: cell_offset_div_mod [OF \<open>oh < A\<close> \<open>ow < B\<close>])
qed


lemma writes_block_update:
  assumes "\<And>s. proj (F s) = (proj s)[b := x]"
  shows "writes_block (\<lambda>_. True) proj F b 1 (\<lambda>_. x)"
proof (rule writes_blockI)
  fix s :: 'a and k
  assume "\<not> (b \<le> k \<and> k < b + 1)"
  then have "k \<noteq> b" by auto
  then show "proj (F s) ! k = proj s ! k" by (simp add: assms)
qed (simp_all add: assms)

section \<open>The contiguous forward kernel, cell by cell\<close>

lemma cpu_adaptive_max_pool_unfold:
  "cpu_adaptive_max_pool scalar_t output indices input output_size =
     (let oH = output_size ! 0; oW = output_size ! 1;
          s = fold (\<lambda>c. fold (\<lambda>oh. fold (\<lambda>ow s.
                (let r = window_max (data input) (c * height input * width input)
                           (height input) (width input) oH oW oh ow
                 in ((fst s)[c * oH * oW + (oh * oW + ow) := fst r],
                     (snd s)[c * oH * oW + (oh * oW + ow) := int (cast_index scalar_t (snd r))])))
                [0..<oW]) [0..<oH]) [0..<planes input] (data output, data indices)
      in (output\<lparr>data := fst s\<rparr>, indices\<lparr>data := snd s\<rparr>))"
  unfolding cpu_adaptive_max_pool_def window_max_def planes_def height_def width_def
  by (simp add: Let_def split_def)

lemma cpu_adaptive_max_pool_cell:
  fixes input :: "fp tensor" and output_size :: "nat list"
  defines "oH \<equiv> output_size ! 0" and "oW \<equiv> output_size ! 1"
  assumes c: "c < planes input" and oh: "oh < oH" and ow: "ow < oW"
    and lo: "planes input * (oH * oW) \<le> length (data output)"
    and li: "planes input * (oH * oW) \<le> length (data indices)"
  shows "data (fst (cpu_adaptive_max_pool scalar_t output indices input output_size))
           ! (c * (oH * oW) + oh * oW + ow)
         = fst (window_max (data input) (c * height input * width input)
                  (height input) (width input) oH oW oh ow)"
    and "data (snd (cpu_adaptive_max_pool scalar_t output indices input output_size))
           ! (c * (oH * oW) + oh * oW + ow)
         = int (cast_index scalar_t (snd (window_max (data input) (c * height input * width input)
                  (height input) (width input) oH oW oh ow)))"
proof -
  define r where "r c oh ow = window_max (data input) (c * height input * width input)
                           (height input) (width input) oH oW oh ow" for c oh ow
  define F where "F c oh ow s =
       ((fst s)[c * oH * oW + (oh * oW + ow) := fst (r c oh ow)],
        (snd s)[c * oH * oW + (oh * oW + ow) := int (cast_index scalar_t (snd (r c oh ow)))])"
    for c oh ow and s :: "fp list \<times> int list"
  define s where "s = fold (\<lambda>c. fold (\<lambda>oh. fold (F c oh) [0..<oW]) [0..<oH]) [0..<planes input]
                        (data output, data indices)"
  have res: "cpu_adaptive_max_pool scalar_t output indices input output_size
             = (output\<lparr>data := fst s\<rparr>, indices\<lparr>data := snd s\<rparr>)"
    unfolding cpu_adaptive_max_pool_unfold s_def F_def [abs_def] r_def oH_def oW_def
    by (simp add: Let_def)
  have w1: "writes_block (\<lambda>_. True) fst (F c oh ow) (c * (oH * oW) + oh * oW + ow) 1
              (\<lambda>_. fst (r c oh ow))" for c oh ow
    by (rule writes_block_update) (simp add: F_def add.assoc mult.assoc)
  have w2: "writes_block (\<lambda>_. True) snd (F c oh ow) (c * (oH * oW) + oh * oW + ow) 1
              (\<lambda>_. int (cast_index scalar_t (snd (r c oh ow))))" for c oh ow
    by (rule writes_block_update) (simp add: F_def add.assoc mult.assoc)
  have "fst s ! (c * (oH * oW) + oh * oW + ow) = fst (r c oh ow)"
    unfolding s_def
    by (rule nest3_cell [where I = "\<lambda>_. True" and proj = fst and v = "\<lambda>c oh ow. fst (r c oh ow)"])
       (use w1 c oh ow lo in simp_all)
  moreover have "snd s ! (c * (oH * oW) + oh * oW + ow) = int (cast_index scalar_t (snd (r c oh ow)))"
    unfolding s_def
    by (rule nest3_cell [where I = "\<lambda>_. True" and proj = snd
          and v = "\<lambda>c oh ow. int (cast_index scalar_t (snd (r c oh ow)))"])
       (use w2 c oh ow li in simp_all)
  ultimately show "data (fst (cpu_adaptive_max_pool scalar_t output indices input output_size))
           ! (c * (oH * oW) + oh * oW + ow)
         = fst (window_max (data input) (c * height input * width input)
                  (height input) (width input) oH oW oh ow)"
    and "data (snd (cpu_adaptive_max_pool scalar_t output indices input output_size))
           ! (c * (oH * oW) + oh * oW + ow)
         = int (cast_index scalar_t (snd (window_max (data input) (c * height input * width input)
                  (height input) (width input) oH oW oh ow)))"
    by (simp_all add: res r_def)
qed

section \<open>Scans over a window\<close>

lemma fold_concat_map: "fold f (concat (map g xs)) s = fold (\<lambda>x. fold f (g x)) xs s"
  by (induction xs arbitrary: s) simp_all

lemma local_max_scan:
  "local_max input_data p W ih0 ih1 iw0 iw1
   = scan (\<lambda>j. input_data ! (p + j)) (window_positions W ih0 ih1 iw0 iw1) (NegInf, ih0 * W + iw0)"
  by (simp add: local_max_def scan_def window_positions_def fold_concat_map fold_map comp_def
      Let_def)

lemma window_positions_bound:
  assumes "j \<in> set (window_positions W ih0 ih1 iw0 iw1)" and "ih1 \<le> H" and "iw1 \<le> W"
  shows "j < H * W"
proof -
  from assms(1) obtain ih where ih: "j < iw1 + ih * W" "ih < ih1"
    by (auto simp: window_positions_def)
  then have "j < Suc ih * W" using assms(3) by simp
  also have "\<dots> \<le> H * W" using ih(2) assms(2) by (intro mult_le_mono1) simp
  finally show ?thesis .
qed

lemma scan_int:
  "fold (\<lambda>j. scan_step (x j) (int j)) js (v, int j0) = map_prod id int (scan x js (v, j0))"
  by (induction js arbitrary: v j0) (simp_all add: scan_def scan_step_def)

section \<open>The channels-last forward kernel, lane by lane\<close>

lemma cl_frame_refl: "cl_frame out C s s"
  by (simp add: cl_frame_def)

lemma cl_frame_trans: "cl_frame out C s s' \<Longrightarrow> cl_frame out C s' s'' \<Longrightarrow> cl_frame out C s s''"
  by (simp add: cl_frame_def)

lemma cl_ok_frame: "cl_ok out C len s \<Longrightarrow> cl_frame out' C' s s' \<Longrightarrow> cl_ok out C len s'"
  by (simp add: cl_frame_def cl_ok_def)

lemma fold_cl_frame:
  assumes "\<And>x s. x \<in> set xs \<Longrightarrow> Q s \<Longrightarrow> Q (f x s) \<and> cl_frame out C s (f x s)" and "Q s"
  shows "Q (fold f xs s) \<and> cl_frame out C s (fold f xs s)"
  using assms
proof (induction xs arbitrary: s)
  case Nil
  then show ?case by (simp add: cl_frame_refl)
next
  case (Cons x xs)
  have 1: "Q (f x s) \<and> cl_frame out C s (f x s)" using Cons.prems by simp
  have 2: "Q (fold f xs (f x s)) \<and> cl_frame out C (f x s) (fold f xs (f x s))"
    by (rule Cons.IH) (use Cons.prems 1 in simp_all)
  show ?case using 1 2 by (auto intro: cl_frame_trans)
qed

lemma fold_lanes:
  assumes step: "\<And>d s. d \<in> set ds \<Longrightarrow> Q s \<Longrightarrow>
      Q (f d s) \<and> L (f d s) d = g d (L s d) \<and> (\<forall>d'. d' \<noteq> d \<longrightarrow> L (f d s) d' = L s d')"
    and "distinct ds" and "Q s"
  shows "Q (fold f ds s) \<and> (\<forall>d. L (fold f ds s) d = (if d \<in> set ds then g d (L s d) else L s d))"
  using assms
proof (induction ds arbitrary: s)
  case Nil
  then show ?case by simp
next
  case (Cons d ds)
  have 1: "Q (f d s) \<and> L (f d s) d = g d (L s d) \<and> (\<forall>d'. d' \<noteq> d \<longrightarrow> L (f d s) d' = L s d')"
    using Cons.prems(1) [of d s] Cons.prems(3) by simp
  have 2: "Q (fold f ds (f d s))
           \<and> (\<forall>d'. L (fold f ds (f d s)) d' = (if d' \<in> set ds then g d' (L (f d s) d') else L (f d s) d'))"
    by (rule Cons.IH) (use Cons.prems 1 in simp_all)
  show ?case using 1 2 Cons.prems(2) by auto
qed

lemma cl_vec_lane_step:
  assumes ok: "cl_ok out C len s" and d: "d < len" and len: "len \<le> C"
  shows "cl_ok out C len (cl_vec_lane scalar_t input_data p out index d s)"
    and "cl_frame out C s (cl_vec_lane scalar_t input_data p out index d s)"
    and "lane out len (cl_vec_lane scalar_t input_data p out index d s) d
         = scan_step (input_data ! (p + d)) (lane_cast scalar_t (int index)) (lane out len s d)"
    and "d' \<noteq> d \<Longrightarrow> lane out len (cl_vec_lane scalar_t input_data p out index d s) d'
         = lane out len s d'"
  using assms
  by (auto simp: cl_vec_lane_def cl_ok_def cl_frame_def lane_def scan_step_def Let_def)

lemma cl_tail_lane_step:
  assumes ok: "cl_ok out C len s" and d: "len \<le> d" "d < C"
  shows "cl_ok out C len (cl_tail_lane input_data p out index d s)"
    and "cl_frame out C s (cl_tail_lane input_data p out index d s)"
    and "lane out len (cl_tail_lane input_data p out index d s) d
         = scan_step (input_data ! (p + d)) (int index) (lane out len s d)"
    and "d' \<noteq> d \<Longrightarrow> lane out len (cl_tail_lane input_data p out index d s) d' = lane out len s d'"
  using assms
  by (auto simp: cl_tail_lane_def cl_ok_def cl_frame_def lane_def scan_step_def Let_def)


text \<open>One window position: the vector loop and then the tail visit every channel once.\<close>

lemma cl_position_lanes:
  fixes input_data :: "fp list" and p :: nat
  assumes ok: "cl_ok out C len s" and len: "len \<le> C"
    and cast: "lane_cast scalar_t (int index) = int index"
  defines "s' \<equiv> fold (cl_tail_lane input_data p out index) [len..<C]
                  (fold (cl_vec_lane scalar_t input_data p out index) [0..<len] s)"
  shows "cl_ok out C len s'" and "cl_frame out C s s'"
    and "\<forall>d<C. lane out len s' d = scan_step (input_data ! (p + d)) (int index) (lane out len s d)"
proof -
  let ?v = "cl_vec_lane scalar_t input_data p out index"
  let ?t = "cl_tail_lane input_data p out index"
  let ?g = "\<lambda>d. scan_step (input_data ! (p + d)) (int index)"
  let ?s1 = "fold ?v [0..<len] s"
  have v: "cl_ok out C len ?s1
           \<and> (\<forall>d. lane out len ?s1 d = (if d \<in> set [0..<len] then ?g d (lane out len s d)
                                        else lane out len s d))"
    by (rule fold_lanes) (use cl_vec_lane_step [OF _ _ len] cast ok in simp_all)
  have vf: "cl_ok out C len ?s1 \<and> cl_frame out C s ?s1"
    by (rule fold_cl_frame) (use cl_vec_lane_step [OF _ _ len] ok in simp_all)
  have t: "cl_ok out C len s'
           \<and> (\<forall>d. lane out len s' d = (if d \<in> set [len..<C] then ?g d (lane out len ?s1 d)
                                       else lane out len ?s1 d))"
    unfolding s'_def
    by (rule fold_lanes) (use cl_tail_lane_step v in simp_all)
  have tf: "cl_ok out C len s' \<and> cl_frame out C ?s1 s'"
    unfolding s'_def
    by (rule fold_cl_frame) (use cl_tail_lane_step v in simp_all)
  show "cl_ok out C len s'" using t by simp
  show "cl_frame out C s s'" using vf tf by (blast intro: cl_frame_trans)
  show "\<forall>d<C. lane out len s' d = ?g d (lane out len s d)"
    using v t len by auto
qed

lemma cl_reduce_flat:
  "cl_reduce scalar_t input_data n H W C out len ih0 ih1 iw0 iw1
   = fold (\<lambda>j s. fold (cl_tail_lane input_data (n * H * W * C + j * C) out j) [len..<C]
               (fold (cl_vec_lane scalar_t input_data (n * H * W * C + j * C) out j) [0..<len] s))
       (window_positions W ih0 ih1 iw0 iw1)"
  by (rule ext)
     (simp add: cl_reduce_def window_positions_def fold_concat_map fold_map comp_def Let_def
        add_mult_distrib add.assoc)

lemma cl_reduce_lanes:
  fixes input_data :: "fp list" and b :: nat
  assumes ok: "cl_ok out C len s" and len: "len \<le> C"
    and cast: "\<forall>j\<in>set js. lane_cast scalar_t (int j) = int j"
  defines "G \<equiv> \<lambda>j s. fold (cl_tail_lane input_data (b + j * C) out j) [len..<C]
               (fold (cl_vec_lane scalar_t input_data (b + j * C) out j) [0..<len] s)"
  shows "cl_ok out C len (fold G js s) \<and> cl_frame out C s (fold G js s)
         \<and> (\<forall>d<C. lane out len (fold G js s) d
                   = fold (\<lambda>j. scan_step (input_data ! (b + j * C + d)) (int j)) js (lane out len s d))"
  using ok cast
proof (induction js arbitrary: s)
  case Nil
  then show ?case by (simp add: cl_frame_refl)
next
  case (Cons j js)
  have c: "lane_cast scalar_t (int j) = int j" using Cons.prems(2) by simp
  note P = cl_position_lanes [OF Cons.prems(1) len c, of input_data "b + j * C"]
  have IH: "cl_ok out C len (fold G js (G j s)) \<and> cl_frame out C (G j s) (fold G js (G j s))
         \<and> (\<forall>d<C. lane out len (fold G js (G j s)) d
                   = fold (\<lambda>j. scan_step (input_data ! (b + j * C + d)) (int j)) js
                       (lane out len (G j s) d))"
    by (rule Cons.IH) (use P(1) Cons.prems(2) in \<open>simp_all add: G_def\<close>)
  have f: "cl_frame out C s (G j s)" using P(2) by (simp add: G_def)
  have l: "\<forall>d<C. lane out len (G j s) d
             = scan_step (input_data ! (b + j * C + d)) (int j) (lane out len s d)"
    using P(3) by (simp add: G_def)
  show ?case using IH f l by (auto intro: cl_frame_trans)
qed


lemma lane_cast_id:
  assumes "0 \<le> k" and "k \<le> lane_max scalar_t"
  shows "lane_cast scalar_t k = k"
  unfolding lane_cast_def
  by (rule signed_take_bit_int_eq_self) (use assms in \<open>simp_all add: lane_max_def\<close>)

lemma lane_cast_nat:
  assumes "j < n" and "int n \<le> lane_max scalar_t"
  shows "lane_cast scalar_t (int j) = int j"
proof (rule lane_cast_id)
  have "int j < int n" using assms(1) by (simp only: of_nat_less_iff)
  then show "int j \<le> lane_max scalar_t" using assms(2) by linarith
qed simp

lemma cl_init_lanes:
  assumes ok: "cl_ok out C len s" and len: "len \<le> C"
    and cast: "lane_cast scalar_t (int index0) = int index0"
  defines "s' \<equiv> cl_init scalar_t out len C index0 s"
  shows "cl_ok out C len s'" and "cl_frame out C s s'"
    and "\<forall>d<C. lane out len s' d = (NegInf, int index0)"
proof -
  let ?v = "\<lambda>d1 s. s\<lparr>index_buffer := (index_buffer s)[d1 := lane_cast scalar_t (int index0)],
                       output_data := (output_data s)[out + d1 := NegInf]\<rparr>"
  let ?t = "\<lambda>d1 s. s\<lparr>indices_data := (indices_data s)[out + d1 := int index0],
                     output_data := (output_data s)[out + d1 := NegInf]\<rparr>"
  let ?g = "\<lambda>(d::nat) (_::fp \<times> int). (NegInf, int index0)"
  let ?s1 = "fold ?v [0..<len] s"
  have s': "s' = fold ?t [len..<C] ?s1" by (simp add: s'_def cl_init_def)
  have v: "cl_ok out C len ?s1
           \<and> (\<forall>d. lane out len ?s1 d = (if d \<in> set [0..<len] then ?g d (lane out len s d)
                                        else lane out len s d))"
    by (rule fold_lanes) (use ok len cast in \<open>auto simp: cl_ok_def lane_def\<close>)
  have vf: "cl_ok out C len ?s1 \<and> cl_frame out C s ?s1"
    by (rule fold_cl_frame) (use ok len in \<open>auto simp: cl_ok_def cl_frame_def\<close>)
  have t: "cl_ok out C len s'
           \<and> (\<forall>d. lane out len s' d = (if d \<in> set [len..<C] then ?g d (lane out len ?s1 d)
                                       else lane out len ?s1 d))"
    unfolding s'
    by (rule fold_lanes) (use v in \<open>auto simp: cl_ok_def lane_def\<close>)
  have tf: "cl_ok out C len s' \<and> cl_frame out C ?s1 s'"
    unfolding s'
    by (rule fold_cl_frame) (use v in \<open>auto simp: cl_ok_def cl_frame_def\<close>)
  show "cl_ok out C len s'" using t by simp
  show "cl_frame out C s s'" using vf tf by (blast intro: cl_frame_trans)
  show "\<forall>d<C. lane out len s' d = (NegInf, int index0)"
    using v t len by auto
qed

lemma cl_convert_lanes:
  assumes ok: "cl_ok out C len s" and len: "len \<le> C"
  defines "s' \<equiv> cl_convert out len s"
  shows "cl_ok out C len s'" and "cl_frame out C s s'"
    and "output_data s' = output_data s"
    and "\<forall>d<C. indices_data s' ! (out + d) = snd (lane out len s d)"
proof -
  define ib where "ib = index_buffer s"
  define od where "od = output_data s"
  define f where "f = (\<lambda>d (t::cl_buffers). t\<lparr>indices_data := (indices_data t)[out + d := index_buffer t ! d]\<rparr>)"
  define Q where "Q = (\<lambda>t::cl_buffers. cl_ok out C len t \<and> index_buffer t = ib \<and> output_data t = od)"
  define L where "L = (\<lambda>(t::cl_buffers) d. indices_data t ! (out + d))"
  define g where "g = (\<lambda>(d::nat) (_::int). ib ! d)"
  have s': "s' = fold f [0..<len] s" by (simp add: s'_def cl_convert_def f_def)
  have Qs: "Q s" using ok by (simp add: Q_def ib_def od_def)
  have step: "Q (f d t) \<and> L (f d t) d = g d (L t d) \<and> (\<forall>d'. d' \<noteq> d \<longrightarrow> L (f d t) d' = L t d')"
    if "d \<in> set [0..<len]" "Q t" for d t
    using that len by (auto simp: Q_def f_def L_def g_def cl_ok_def)
  have fr: "Q (f d t) \<and> cl_frame out C t (f d t)" if "d \<in> set [0..<len]" "Q t" for d t
    using that len by (auto simp: Q_def f_def cl_ok_def cl_frame_def)
  have l: "Q s' \<and> (\<forall>d. L s' d = (if d \<in> set [0..<len] then g d (L s d) else L s d))"
    unfolding s' by (rule fold_lanes) (use step Qs in simp_all)
  have f: "Q s' \<and> cl_frame out C s s'"
    unfolding s' by (rule fold_cl_frame) (use fr Qs in simp_all)
  show "cl_ok out C len s'" using l by (simp add: Q_def)
  show "cl_frame out C s s'" using f by simp
  show "output_data s' = output_data s" using l by (simp add: Q_def od_def)
  show "\<forall>d<C. indices_data s' ! (out + d) = snd (lane out len s d)"
    using l by (simp add: lane_def L_def g_def ib_def)
qed


text \<open>One work unit: the three passes for output position \<open>(n, oh, ow)\<close>.\<close>

lemma cl_three_passes:
  fixes input_data :: "fp list" and n :: nat
  assumes ok: "cl_ok out C len s" and len: "len \<le> C"
    and H: "0 < H" and W: "0 < W" and oh: "oh < oH" and ow: "ow < oW"
    and fits: "int (H * W) \<le> lane_max scalar_t"
  defines "ih0 \<equiv> start_index oh oH H" and "ih1 \<equiv> end_index oh oH H"
    and "iw0 \<equiv> start_index ow oW W" and "iw1 \<equiv> end_index ow oW W"
  defines "s' \<equiv> cl_convert out len
                  (cl_reduce scalar_t input_data n H W C out len ih0 ih1 iw0 iw1
                     (cl_init scalar_t out len C (ih0 * W + iw0) s))"
  shows "cl_ok out C len s'" and "cl_frame out C s s'"
    and "\<forall>d<C. output_data s' ! (out + d) = fst (window_max_cl input_data C H W oH oW n oh ow d)"
    and "\<forall>d<C. indices_data s' ! (out + d)
               = int (snd (window_max_cl input_data C H W oH oW n oh ow d))"
proof -
  define js where "js = window_positions W ih0 ih1 iw0 iw1"
  define s1 where "s1 = cl_init scalar_t out len C (ih0 * W + iw0) s"
  define s2 where "s2 = cl_reduce scalar_t input_data n H W C out len ih0 ih1 iw0 iw1 s1"
  have oH: "0 < oH" and oW: "0 < oW" using oh ow by simp_all
  have h: "ih0 < ih1" "ih1 \<le> H" and w: "iw0 < iw1" "iw1 \<le> W"
    unfolding ih0_def ih1_def iw0_def iw1_def
    using start_lt_end [OF oH H] end_le [OF oH oh] start_lt_end [OF oW W] end_le [OF oW ow]
    by simp_all
  have "ih0 * W + iw0 < H * W"
    by (rule cell_offset_less) (use h w in simp_all)
  then have c0: "lane_cast scalar_t (int (ih0 * W + iw0)) = int (ih0 * W + iw0)"
    using fits by (rule lane_cast_nat)
  have cj: "\<forall>j\<in>set js. lane_cast scalar_t (int j) = int j"
  proof
    fix j assume "j \<in> set js"
    then have "j < H * W" unfolding js_def using h(2) w(2) by (rule window_positions_bound)
    then show "lane_cast scalar_t (int j) = int j"
      using fits by (rule lane_cast_nat)
  qed
  note A = cl_init_lanes [OF ok len c0, folded s1_def]
  have s2: "s2 = fold (\<lambda>j s. fold (cl_tail_lane input_data (n * H * W * C + j * C) out j) [len..<C]
               (fold (cl_vec_lane scalar_t input_data (n * H * W * C + j * C) out j) [0..<len] s))
             js s1"
    by (simp add: s2_def cl_reduce_flat js_def)
  note B = cl_reduce_lanes [OF A(1) len cj, of input_data "n * H * W * C", folded s2]
  have s': "s' = cl_convert out len s2" by (simp add: s'_def s2_def s1_def)
  note D = cl_convert_lanes [OF conjunct1 [OF B] len, folded s']
  have lanes: "lane out len s2 d = map_prod id int (window_max_cl input_data C H W oH oW n oh ow d)"
    if "d < C" for d
  proof -
    have "lane out len s2 d
          = fold (\<lambda>j. scan_step (input_data ! (n * H * W * C + j * C + d)) (int j)) js
              (NegInf, int (ih0 * W + iw0))"
      using B A(3) that by simp
    also have "\<dots> = map_prod id int (scan (\<lambda>j. input_data ! (n * H * W * C + j * C + d)) js
                                    (NegInf, ih0 * W + iw0))"
      by (rule scan_int)
    finally show ?thesis
      by (simp add: window_max_cl_def js_def ih0_def ih1_def iw0_def iw1_def)
  qed
  show "cl_ok out C len s'" by (rule D(1))
  show "cl_frame out C s s'" using A(2) B D(2) by (blast intro: cl_frame_trans)
  show "\<forall>d<C. output_data s' ! (out + d) = fst (window_max_cl input_data C H W oH oW n oh ow d)"
  proof (intro allI impI)
    fix d assume d: "d < C"
    have "output_data s' ! (out + d) = fst (lane out len s2 d)"
      by (simp add: D(3) lane_def)
    then show "output_data s' ! (out + d) = fst (window_max_cl input_data C H W oH oW n oh ow d)"
      by (simp add: lanes [OF d])
  qed
  show "\<forall>d<C. indices_data s' ! (out + d)
               = int (snd (window_max_cl input_data C H W oH oW n oh ow d))"
    using D(4) lanes by simp
qed

lemma data_index_bounds:
  assumes "i < N * oH * oW"
  shows "fst (snd (data_index i N oH oW)) < oH" and "snd (snd (data_index i N oH oW)) < oW"
proof -
  have "oH \<noteq> 0" proof assume "oH = 0" with assms show False by simp qed
  moreover have "oW \<noteq> 0" proof assume "oW = 0" with assms show False by simp qed
  ultimately
  show "fst (snd (data_index i N oH oW)) < oH" and "snd (snd (data_index i N oH oW)) < oW"
    by (simp_all add: data_index_def)
qed

lemma data_index_cell:
  assumes "n < N" and "oh < oH" and "ow < oW"
  shows "data_index ((n * oH + oh) * oW + ow) N oH oW = (n, oh, ow)"
  using assms by (simp add: data_index_def)

lemma cl_work_unit_effect:
  fixes input_data :: "fp list"
  assumes ok: "cl_ok (i * C) C len s"
    and len: "len \<le> C" and H: "0 < H" and W: "0 < W" and i: "i < N * oH * oW"
    and fits: "int (H * W) \<le> lane_max scalar_t"
  defines "s' \<equiv> cl_work_unit scalar_t input_data N C H W oH oW len i s"
  shows "cl_ok (i * C) C len s'" and "cl_frame (i * C) C s s'"
    and "\<forall>d<C. output_data s' ! (i * C + d) = fst (unit_max_cl input_data N C H W oH oW i d)"
    and "\<forall>d<C. indices_data s' ! (i * C + d) = int (snd (unit_max_cl input_data N C H W oH oW i d))"
proof -
  obtain n oh ow where di: "data_index i N oH oW = (n, oh, ow)"
    by (cases "data_index i N oH oW") auto
  have oh: "oh < oH" and ow: "ow < oW" using data_index_bounds [OF i] di by simp_all
  have u: "s' = cl_convert (i * C) len
               (cl_reduce scalar_t input_data n H W C (i * C) len
                  (start_index oh oH H) (end_index oh oH H) (start_index ow oW W) (end_index ow oW W)
                  (cl_init scalar_t (i * C) len C (start_index oh oH H * W + start_index ow oW W) s))"
    by (simp add: s'_def cl_work_unit_def di Let_def)
  have rr: "unit_max_cl input_data N C H W oH oW i d = window_max_cl input_data C H W oH oW n oh ow d"
    for d
    by (simp add: unit_max_cl_def di)
  note T = cl_three_passes [OF ok len H W oh ow fits, of input_data n, folded u]
  show "cl_ok (i * C) C len s'" by (rule T(1))
  show "cl_frame (i * C) C s s'" by (rule T(2))
  show "\<forall>d<C. output_data s' ! (i * C + d) = fst (unit_max_cl input_data N C H W oH oW i d)"
    unfolding rr by (rule T(3))
  show "\<forall>d<C. indices_data s' ! (i * C + d) = int (snd (unit_max_cl input_data N C H W oH oW i d))"
    unfolding rr by (rule T(4))
qed


lemma cl_work_unit_writes_block:
  fixes input_data :: "fp list"
  assumes len: "len \<le> C" and H: "0 < H" and W: "0 < W" and i: "i < N * oH * oW"
    and fits: "int (H * W) \<le> lane_max scalar_t"
  shows "writes_block (cl_inv len) output_data
           (cl_work_unit scalar_t input_data N C H W oH oW len i)
           (0 + i * C) C (\<lambda>d. fst (unit_max_cl input_data N C H W oH oW i d))"
    and "writes_block (cl_inv len) indices_data
           (cl_work_unit scalar_t input_data N C H W oH oW len i)
           (0 + i * C) C (\<lambda>d. int (snd (unit_max_cl input_data N C H W oH oW i d)))"
proof -
  let ?u = "cl_work_unit scalar_t input_data N C H W oH oW len i"
  note E = cl_work_unit_effect [OF _ len H W i fits, of _ input_data]
  show "writes_block (cl_inv len) output_data ?u (0 + i * C) C
          (\<lambda>d. fst (unit_max_cl input_data N C H W oH oW i d))"
  proof (rule writes_blockI)
    fix s assume inv: "cl_inv len s" and "0 + i * C + C \<le> length (output_data s)"
    then have ok: "cl_ok (i * C) C len s" by (simp add: cl_inv_def cl_ok_def)
    show "cl_inv len (?u s)"
      using E(2) [OF ok] inv by (simp add: cl_inv_def cl_frame_def)
    show "length (output_data (?u s)) = length (output_data s)"
      using E(2) [OF ok] by (simp add: cl_frame_def)
    show "output_data (?u s) ! k = output_data s ! k"
      if "\<not> (0 + i * C \<le> k \<and> k < 0 + i * C + C)" for k
      using E(2) [OF ok] that by (simp add: cl_frame_def)
    show "output_data (?u s) ! (0 + i * C + j) = fst (unit_max_cl input_data N C H W oH oW i j)"
      if "j < C" for j
      using E(3) [OF ok] that by simp
  qed
  show "writes_block (cl_inv len) indices_data ?u (0 + i * C) C
          (\<lambda>d. int (snd (unit_max_cl input_data N C H W oH oW i d)))"
  proof (rule writes_blockI)
    fix s assume inv: "cl_inv len s" and "0 + i * C + C \<le> length (indices_data s)"
    then have ok: "cl_ok (i * C) C len s" by (simp add: cl_inv_def cl_ok_def)
    show "cl_inv len (?u s)"
      using E(2) [OF ok] inv by (simp add: cl_inv_def cl_frame_def)
    show "length (indices_data (?u s)) = length (indices_data s)"
      using E(2) [OF ok] by (simp add: cl_frame_def)
    show "indices_data (?u s) ! k = indices_data s ! k"
      if "\<not> (0 + i * C \<le> k \<and> k < 0 + i * C + C)" for k
      using E(2) [OF ok] that by (simp add: cl_frame_def)
    show "indices_data (?u s) ! (0 + i * C + j)
          = int (snd (unit_max_cl input_data N C H W oH oW i j))"
      if "j < C" for j
      using E(4) [OF ok] that by simp
  qed
qed

text \<open>
  The channels-last kernel, cell by cell: on a 4D input with non-empty planes that passes
  the overflow check, the kernel returns, and channel \<open>d\<close> of output position \<open>(n, oh, ow)\<close>
  holds the scan of its window.
\<close>

lemma cpu_adaptive_max_pool_channels_last_cell:
  fixes input :: "fp tensor" and output_size :: "nat list"
  defines "N \<equiv> sizes input ! 0" and "C \<equiv> sizes input ! 1"
    and "H \<equiv> sizes input ! 2" and "W \<equiv> sizes input ! 3"
    and "oH \<equiv> output_size ! 0" and "oW \<equiv> output_size ! 1"
  assumes rank: "length (sizes input) = 4" and H: "0 < H" and W: "0 < W"
    and fits: "int (H * W) \<le> lane_max scalar_t"
    and lo: "N * oH * oW * C \<le> length (data output)"
    and li: "length (data indices) = length (data output)"
    and n: "n < N" and oh: "oh < oH" and ow: "ow < oW" and d: "d < C"
  shows "\<exists>out ind.
           cpu_adaptive_max_pool_channels_last scalar_t vec_size output indices input output_size
             = Inr (out, ind)
           \<and> data out ! (((n * oH + oh) * oW + ow) * C + d)
               = fst (window_max_cl (data input) C H W oH oW n oh ow d)
           \<and> data ind ! (((n * oH + oh) * oW + ow) * C + d)
               = int (snd (window_max_cl (data input) C H W oH oW n oh ow d))"
proof -
  define len where "len = C - C mod vec_size"
  define s0 where "s0 = \<lparr>output_data = data output, indices_data = data indices,
                         index_buffer = replicate len 0\<rparr>"
  define s where "s = fold (cl_work_unit scalar_t (data input) N C H W oH oW len)
                        [0..<N * oH * oW] s0"
  define i where "i = (n * oH + oh) * oW + ow"
  have res: "cpu_adaptive_max_pool_channels_last scalar_t vec_size output indices input output_size
             = Inr (output\<lparr>data := output_data s\<rparr>, indices\<lparr>data := indices_data s\<rparr>)"
    using rank fits
    by (simp add: cpu_adaptive_max_pool_channels_last_def Let_def s_def s0_def len_def
        N_def C_def H_def W_def oH_def oW_def)
  have len: "len \<le> C" by (simp add: len_def)
  have inv0: "cl_inv len s0" using li by (simp add: cl_inv_def s0_def)
  have i: "i < N * oH * oW"
  proof -
    have "n * oH + oh < N * oH" by (rule cell_offset_less [OF n oh])
    then have "(n * oH + oh) * oW + ow < (N * oH) * oW" using ow by (rule cell_offset_less)
    then show ?thesis by (simp add: i_def)
  qed
  have di: "data_index i N oH oW = (n, oh, ow)"
    unfolding i_def by (rule data_index_cell [OF n oh ow])
  have wo: "writes_block (cl_inv len) output_data
              (fold (cl_work_unit scalar_t (data input) N C H W oH oW len) [0..<N * oH * oW])
              0 (N * oH * oW * C)
              (\<lambda>k. (\<lambda>i d. fst (unit_max_cl (data input) N C H W oH oW i d)) (k div C) (k mod C))"
    by (rule fold_writes_block) (rule cl_work_unit_writes_block(1) [OF len H W _ fits])
  have wi: "writes_block (cl_inv len) indices_data
              (fold (cl_work_unit scalar_t (data input) N C H W oH oW len) [0..<N * oH * oW])
              0 (N * oH * oW * C)
              (\<lambda>k. (\<lambda>i d. int (snd (unit_max_cl (data input) N C H W oH oW i d))) (k div C) (k mod C))"
    by (rule fold_writes_block) (rule cl_work_unit_writes_block(2) [OF len H W _ fits])
  have k: "i * C + d < N * oH * oW * C" using i d by (rule cell_offset_less)
  have l1: "0 + N * oH * oW * C \<le> length (output_data s0)" using lo by (simp add: s0_def)
  have l2: "0 + N * oH * oW * C \<le> length (indices_data s0)" using lo li by (simp add: s0_def)
  have "output_data s ! (0 + (i * C + d)) = fst (unit_max_cl (data input) N C H W oH oW i d)"
    unfolding s_def using writes_blockD(4) [OF wo inv0 l1 k] d by simp
  moreover have "indices_data s ! (0 + (i * C + d))
                 = int (snd (unit_max_cl (data input) N C H W oH oW i d))"
    unfolding s_def using writes_blockD(4) [OF wi inv0 l2 k] d by simp
  moreover have "unit_max_cl (data input) N C H W oH oW i d
                 = window_max_cl (data input) C H W oH oW n oh ow d"
    by (simp add: unit_max_cl_def di)
  ultimately have "data (output\<lparr>data := output_data s\<rparr>) ! (i * C + d)
                     = fst (window_max_cl (data input) C H W oH oW n oh ow d)"
    and "data (indices\<lparr>data := indices_data s\<rparr>) ! (i * C + d)
           = int (snd (window_max_cl (data input) C H W oH oW n oh ow d))"
    by simp_all
  then show ?thesis
    unfolding res i_def by blast
qed

section \<open>The brain-float specialisation, lane by lane\<close>

lemma cl_bf16_vec_lane_step:
  assumes ok: "cl_bf16_ok out C len s" and d: "d < len" and len: "len \<le> C"
  shows "cl_bf16_ok out C len (cl_bf16_vec_lane input_data p index d s)"
    and "cl_frame out C s (cl_bf16_vec_lane input_data p index d s)"
    and "lane_bf16 out len (cl_bf16_vec_lane input_data p index d s) d
         = scan_step (input_data ! (p + d)) (lane_cast BFloat16 (int index)) (lane_bf16 out len s d)"
    and "d' \<noteq> d \<Longrightarrow> lane_bf16 out len (cl_bf16_vec_lane input_data p index d s) d'
         = lane_bf16 out len s d'"
  using assms
  by (auto simp: cl_bf16_vec_lane_def cl_bf16_ok_def cl_ok_def cl_frame_def lane_bf16_def
      scan_step_def Let_def)

lemma cl_bf16_tail_lane_step:
  assumes ok: "cl_bf16_ok out C len s" and d: "len \<le> d" "d < C"
  shows "cl_bf16_ok out C len (cl_bf16_tail_lane input_data p out index d s)"
    and "cl_frame out C s (cl_bf16_tail_lane input_data p out index d s)"
    and "lane_bf16 out len (cl_bf16_tail_lane input_data p out index d s) d
         = scan_step (input_data ! (p + d)) (int index) (lane_bf16 out len s d)"
    and "d' \<noteq> d \<Longrightarrow> lane_bf16 out len (cl_bf16_tail_lane input_data p out index d s) d'
         = lane_bf16 out len s d'"
  using assms
  by (auto simp: cl_bf16_tail_lane_def cl_bf16_ok_def cl_ok_def cl_frame_def lane_bf16_def
      scan_step_def Let_def)

lemma cl_bf16_position_lanes:
  fixes input_data :: "fp list" and p :: nat
  assumes ok: "cl_bf16_ok out C len s" and len: "len \<le> C"
    and cast: "lane_cast BFloat16 (int index) = int index"
  defines "s' \<equiv> fold (cl_bf16_tail_lane input_data p out index) [len..<C]
                  (fold (cl_bf16_vec_lane input_data p index) [0..<len] s)"
  shows "cl_bf16_ok out C len s'" and "cl_frame out C s s'"
    and "\<forall>d<C. lane_bf16 out len s' d
               = scan_step (input_data ! (p + d)) (int index) (lane_bf16 out len s d)"
proof -
  let ?v = "cl_bf16_vec_lane input_data p index"
  let ?g = "\<lambda>d. scan_step (input_data ! (p + d)) (int index)"
  let ?s1 = "fold ?v [0..<len] s"
  have v: "cl_bf16_ok out C len ?s1
           \<and> (\<forall>d. lane_bf16 out len ?s1 d = (if d \<in> set [0..<len] then ?g d (lane_bf16 out len s d)
                                             else lane_bf16 out len s d))"
    by (rule fold_lanes) (use cl_bf16_vec_lane_step [OF _ _ len] cast ok in simp_all)
  have vf: "cl_bf16_ok out C len ?s1 \<and> cl_frame out C s ?s1"
    by (rule fold_cl_frame) (use cl_bf16_vec_lane_step [OF _ _ len] ok in simp_all)
  have t: "cl_bf16_ok out C len s'
           \<and> (\<forall>d. lane_bf16 out len s' d = (if d \<in> set [len..<C] then ?g d (lane_bf16 out len ?s1 d)
                                            else lane_bf16 out len ?s1 d))"
    unfolding s'_def
    by (rule fold_lanes) (use cl_bf16_tail_lane_step v in simp_all)
  have tf: "cl_bf16_ok out C len s' \<and> cl_frame out C ?s1 s'"
    unfolding s'_def
    by (rule fold_cl_frame) (use cl_bf16_tail_lane_step v in simp_all)
  show "cl_bf16_ok out C len s'" using t by simp
  show "cl_frame out C s s'" using vf tf by (blast intro: cl_frame_trans)
  show "\<forall>d<C. lane_bf16 out len s' d = ?g d (lane_bf16 out len s d)"
    using v t len by auto
qed

lemma cl_bf16_reduce_flat:
  "cl_bf16_reduce input_data n H W C out len ih0 ih1 iw0 iw1
   = fold (\<lambda>j s. fold (cl_bf16_tail_lane input_data (n * H * W * C + j * C) out j) [len..<C]
               (fold (cl_bf16_vec_lane input_data (n * H * W * C + j * C) j) [0..<len] s))
       (window_positions W ih0 ih1 iw0 iw1)"
  by (rule ext)
     (simp add: cl_bf16_reduce_def window_positions_def fold_concat_map fold_map comp_def Let_def
        add_mult_distrib add.assoc)

lemma cl_bf16_reduce_lanes:
  fixes input_data :: "fp list" and b :: nat
  assumes ok: "cl_bf16_ok out C len s" and len: "len \<le> C"
    and cast: "\<forall>j\<in>set js. lane_cast BFloat16 (int j) = int j"
  defines "G \<equiv> \<lambda>j s. fold (cl_bf16_tail_lane input_data (b + j * C) out j) [len..<C]
               (fold (cl_bf16_vec_lane input_data (b + j * C) j) [0..<len] s)"
  shows "cl_bf16_ok out C len (fold G js s) \<and> cl_frame out C s (fold G js s)
         \<and> (\<forall>d<C. lane_bf16 out len (fold G js s) d
                   = fold (\<lambda>j. scan_step (input_data ! (b + j * C + d)) (int j)) js
                       (lane_bf16 out len s d))"
  using ok cast
proof (induction js arbitrary: s)
  case Nil
  then show ?case by (simp add: cl_frame_refl)
next
  case (Cons j js)
  have c: "lane_cast BFloat16 (int j) = int j" using Cons.prems(2) by simp
  note P = cl_bf16_position_lanes [OF Cons.prems(1) len c, of input_data "b + j * C"]
  have IH: "cl_bf16_ok out C len (fold G js (G j s)) \<and> cl_frame out C (G j s) (fold G js (G j s))
         \<and> (\<forall>d<C. lane_bf16 out len (fold G js (G j s)) d
                   = fold (\<lambda>j. scan_step (input_data ! (b + j * C + d)) (int j)) js
                       (lane_bf16 out len (G j s) d))"
    by (rule Cons.IH) (use P(1) Cons.prems(2) in \<open>simp_all add: G_def\<close>)
  have f: "cl_frame out C s (G j s)" using P(2) by (simp add: G_def)
  have l: "\<forall>d<C. lane_bf16 out len (G j s) d
             = scan_step (input_data ! (b + j * C + d)) (int j) (lane_bf16 out len s d)"
    using P(3) by (simp add: G_def)
  show ?case using IH f l by (auto intro: cl_frame_trans)
qed

lemma cl_bf16_init_lanes:
  assumes ok: "cl_bf16_ok out C len s" and len: "len \<le> C"
    and cast: "lane_cast BFloat16 (int index0) = int index0"
  defines "s' \<equiv> cl_bf16_init out len C index0 s"
  shows "cl_bf16_ok out C len s'" and "cl_frame out C s s'"
    and "\<forall>d<C. lane_bf16 out len s' d = (NegInf, int index0)"
proof -
  let ?v = "\<lambda>d1 (s::cl_buffers_bf16).
              s\<lparr>index_buffer := (index_buffer s)[d1 := lane_cast BFloat16 (int index0)],
                max_arr := (max_arr s)[d1 := NegInf]\<rparr>"
  let ?t = "\<lambda>d1 (s::cl_buffers_bf16).
              s\<lparr>indices_data := (indices_data s)[out + d1 := int index0],
                max_arr := (max_arr s)[d1 := NegInf]\<rparr>"
  let ?g = "\<lambda>(d::nat) (_::fp \<times> int). (NegInf, int index0)"
  let ?s1 = "fold ?v [0..<len] s"
  have s': "s' = fold ?t [len..<C] ?s1" by (simp add: s'_def cl_bf16_init_def)
  have v: "cl_bf16_ok out C len ?s1
           \<and> (\<forall>d. lane_bf16 out len ?s1 d = (if d \<in> set [0..<len] then ?g d (lane_bf16 out len s d)
                                             else lane_bf16 out len s d))"
    by (rule fold_lanes) (use ok len cast in \<open>auto simp: cl_bf16_ok_def cl_ok_def lane_bf16_def\<close>)
  have vf: "cl_bf16_ok out C len ?s1 \<and> cl_frame out C s ?s1"
    by (rule fold_cl_frame) (use ok len in \<open>auto simp: cl_bf16_ok_def cl_ok_def cl_frame_def\<close>)
  have t: "cl_bf16_ok out C len s'
           \<and> (\<forall>d. lane_bf16 out len s' d = (if d \<in> set [len..<C] then ?g d (lane_bf16 out len ?s1 d)
                                            else lane_bf16 out len ?s1 d))"
    unfolding s'
    by (rule fold_lanes) (use v in \<open>auto simp: cl_bf16_ok_def cl_ok_def lane_bf16_def\<close>)
  have tf: "cl_bf16_ok out C len s' \<and> cl_frame out C ?s1 s'"
    unfolding s'
    by (rule fold_cl_frame) (use v in \<open>auto simp: cl_bf16_ok_def cl_ok_def cl_frame_def\<close>)
  show "cl_bf16_ok out C len s'" using t by simp
  show "cl_frame out C s s'" using vf tf by (blast intro: cl_frame_trans)
  show "\<forall>d<C. lane_bf16 out len s' d = (NegInf, int index0)"
    using v t len by auto
qed

lemma cl_bf16_store_lanes:
  assumes ok: "cl_bf16_ok out C len s" and len: "len \<le> C"
  defines "s' \<equiv> cl_bf16_store out len C s"
  shows "cl_bf16_ok out C len s'" and "cl_frame out C s s'"
    and "\<forall>d. lane_bf16 out len s' d = lane_bf16 out len s d"
    and "\<forall>d<C. output_data s' ! (out + d) = fst (lane_bf16 out len s d)"
proof -
  define ma where "ma = max_arr s"
  define ib where "ib = index_buffer s"
  define idd where "idd = indices_data s"
  define f where "f = (\<lambda>d (t::cl_buffers_bf16).
                         t\<lparr>output_data := (output_data t)[out + d := max_arr t ! d]\<rparr>)"
  define Q where "Q = (\<lambda>t::cl_buffers_bf16. cl_bf16_ok out C len t \<and> max_arr t = ma
                          \<and> index_buffer t = ib \<and> indices_data t = idd)"
  define L where "L = (\<lambda>(t::cl_buffers_bf16) d. output_data t ! (out + d))"
  define g where "g = (\<lambda>(d::nat) (_::fp). ma ! d)"
  define s1 where "s1 = fold f [0..<len] s"
  have s': "s' = fold f [len..<C] s1" by (simp add: s'_def cl_bf16_store_def f_def s1_def)
  have Qs: "Q s" using ok by (simp add: Q_def ma_def ib_def idd_def)
  have step: "Q (f d t) \<and> L (f d t) d = g d (L t d) \<and> (\<forall>d'. d' \<noteq> d \<longrightarrow> L (f d t) d' = L t d')"
    if "d < C" "Q t" for d t
    using that by (auto simp: Q_def f_def L_def g_def cl_bf16_ok_def cl_ok_def)
  have fr: "Q (f d t) \<and> cl_frame out C t (f d t)" if "d < C" "Q t" for d t
    using that by (auto simp: Q_def f_def cl_bf16_ok_def cl_ok_def cl_frame_def)
  have l1: "Q s1 \<and> (\<forall>d. L s1 d = (if d \<in> set [0..<len] then g d (L s d) else L s d))"
    unfolding s1_def by (rule fold_lanes) (use step Qs len in simp_all)
  have f1: "Q s1 \<and> cl_frame out C s s1"
    unfolding s1_def by (rule fold_cl_frame) (use fr Qs len in simp_all)
  have l2: "Q s' \<and> (\<forall>d. L s' d = (if d \<in> set [len..<C] then g d (L s1 d) else L s1 d))"
    unfolding s' by (rule fold_lanes) (use step l1 in simp_all)
  have f2: "Q s' \<and> cl_frame out C s1 s'"
    unfolding s' by (rule fold_cl_frame) (use fr l1 in simp_all)
  show "cl_bf16_ok out C len s'" using l2 by (simp add: Q_def)
  show "cl_frame out C s s'" using f1 f2 by (blast intro: cl_frame_trans)
  show "\<forall>d. lane_bf16 out len s' d = lane_bf16 out len s d"
    using l2 by (simp add: Q_def lane_bf16_def ma_def ib_def idd_def)
  show "\<forall>d<C. output_data s' ! (out + d) = fst (lane_bf16 out len s d)"
    using l1 l2 len by (auto simp: lane_bf16_def L_def g_def ma_def)
qed

lemma cl_bf16_convert_lanes:
  assumes ok: "cl_bf16_ok out C len s" and len: "len \<le> C"
  defines "s' \<equiv> cl_bf16_convert out len s"
  shows "cl_bf16_ok out C len s'" and "cl_frame out C s s'"
    and "output_data s' = output_data s"
    and "\<forall>d<C. indices_data s' ! (out + d) = snd (lane_bf16 out len s d)"
proof -
  define ib where "ib = index_buffer s"
  define od where "od = output_data s"
  define f where "f = (\<lambda>d (t::cl_buffers_bf16).
                         t\<lparr>indices_data := (indices_data t)[out + d := index_buffer t ! d]\<rparr>)"
  define Q where "Q = (\<lambda>t::cl_buffers_bf16. cl_bf16_ok out C len t \<and> index_buffer t = ib
                          \<and> output_data t = od)"
  define L where "L = (\<lambda>(t::cl_buffers_bf16) d. indices_data t ! (out + d))"
  define g where "g = (\<lambda>(d::nat) (_::int). ib ! d)"
  have s': "s' = fold f [0..<len] s" by (simp add: s'_def cl_bf16_convert_def f_def)
  have Qs: "Q s" using ok by (simp add: Q_def ib_def od_def)
  have step: "Q (f d t) \<and> L (f d t) d = g d (L t d) \<and> (\<forall>d'. d' \<noteq> d \<longrightarrow> L (f d t) d' = L t d')"
    if "d \<in> set [0..<len]" "Q t" for d t
    using that len by (auto simp: Q_def f_def L_def g_def cl_bf16_ok_def cl_ok_def)
  have fr: "Q (f d t) \<and> cl_frame out C t (f d t)" if "d \<in> set [0..<len]" "Q t" for d t
    using that len by (auto simp: Q_def f_def cl_bf16_ok_def cl_ok_def cl_frame_def)
  have l: "Q s' \<and> (\<forall>d. L s' d = (if d \<in> set [0..<len] then g d (L s d) else L s d))"
    unfolding s' by (rule fold_lanes) (use step Qs in simp_all)
  have f: "Q s' \<and> cl_frame out C s s'"
    unfolding s' by (rule fold_cl_frame) (use fr Qs in simp_all)
  show "cl_bf16_ok out C len s'" using l by (simp add: Q_def)
  show "cl_frame out C s s'" using f by simp
  show "output_data s' = output_data s" using l by (simp add: Q_def od_def)
  show "\<forall>d<C. indices_data s' ! (out + d) = snd (lane_bf16 out len s d)"
    using l by (simp add: lane_bf16_def L_def g_def ib_def)
qed


lemma cl_bf16_four_passes:
  fixes input_data :: "fp list" and n :: nat
  assumes ok: "cl_bf16_ok out C len s" and len: "len \<le> C"
    and H: "0 < H" and W: "0 < W" and oh: "oh < oH" and ow: "ow < oW"
    and fits: "int (H * W) \<le> lane_max BFloat16"
  defines "ih0 \<equiv> start_index oh oH H" and "ih1 \<equiv> end_index oh oH H"
    and "iw0 \<equiv> start_index ow oW W" and "iw1 \<equiv> end_index ow oW W"
  defines "s' \<equiv> cl_bf16_convert out len
                  (cl_bf16_store out len C
                     (cl_bf16_reduce input_data n H W C out len ih0 ih1 iw0 iw1
                        (cl_bf16_init out len C (ih0 * W + iw0) s)))"
  shows "cl_bf16_ok out C len s'" and "cl_frame out C s s'"
    and "\<forall>d<C. output_data s' ! (out + d) = fst (window_max_cl input_data C H W oH oW n oh ow d)"
    and "\<forall>d<C. indices_data s' ! (out + d)
               = int (snd (window_max_cl input_data C H W oH oW n oh ow d))"
proof -
  define js where "js = window_positions W ih0 ih1 iw0 iw1"
  define s1 where "s1 = cl_bf16_init out len C (ih0 * W + iw0) s"
  define s2 where "s2 = cl_bf16_reduce input_data n H W C out len ih0 ih1 iw0 iw1 s1"
  define s3 where "s3 = cl_bf16_store out len C s2"
  have oH: "0 < oH" and oW: "0 < oW" using oh ow by simp_all
  have h: "ih0 < ih1" "ih1 \<le> H" and w: "iw0 < iw1" "iw1 \<le> W"
    unfolding ih0_def ih1_def iw0_def iw1_def
    using start_lt_end [OF oH H] end_le [OF oH oh] start_lt_end [OF oW W] end_le [OF oW ow]
    by simp_all
  have "ih0 * W + iw0 < H * W"
    by (rule cell_offset_less) (use h w in simp_all)
  then have c0: "lane_cast BFloat16 (int (ih0 * W + iw0)) = int (ih0 * W + iw0)"
    using fits by (rule lane_cast_nat)
  have cj: "\<forall>j\<in>set js. lane_cast BFloat16 (int j) = int j"
  proof
    fix j assume "j \<in> set js"
    then have "j < H * W" unfolding js_def using h(2) w(2) by (rule window_positions_bound)
    then show "lane_cast BFloat16 (int j) = int j"
      using fits by (rule lane_cast_nat)
  qed
  note A = cl_bf16_init_lanes [OF ok len c0, folded s1_def]
  have s2: "s2 = fold (\<lambda>j s. fold (cl_bf16_tail_lane input_data (n * H * W * C + j * C) out j)
                             [len..<C]
               (fold (cl_bf16_vec_lane input_data (n * H * W * C + j * C) j) [0..<len] s))
             js s1"
    by (simp add: s2_def cl_bf16_reduce_flat js_def)
  note B = cl_bf16_reduce_lanes [OF A(1) len cj, of input_data "n * H * W * C", folded s2]
  note S = cl_bf16_store_lanes [OF conjunct1 [OF B] len, folded s3_def]
  have s': "s' = cl_bf16_convert out len s3" by (simp add: s'_def s3_def s2_def s1_def)
  note D = cl_bf16_convert_lanes [OF S(1) len, folded s']
  have lanes: "lane_bf16 out len s2 d
               = map_prod id int (window_max_cl input_data C H W oH oW n oh ow d)"
    if "d < C" for d
  proof -
    have "lane_bf16 out len s2 d
          = fold (\<lambda>j. scan_step (input_data ! (n * H * W * C + j * C + d)) (int j)) js
              (NegInf, int (ih0 * W + iw0))"
      using B A(3) that by simp
    also have "\<dots> = map_prod id int (scan (\<lambda>j. input_data ! (n * H * W * C + j * C + d)) js
                                    (NegInf, ih0 * W + iw0))"
      by (rule scan_int)
    finally show ?thesis
      by (simp add: window_max_cl_def js_def ih0_def ih1_def iw0_def iw1_def)
  qed
  show "cl_bf16_ok out C len s'" by (rule D(1))
  show "cl_frame out C s s'" using A(2) B S(2) D(2) by (blast intro: cl_frame_trans)
  show "\<forall>d<C. output_data s' ! (out + d) = fst (window_max_cl input_data C H W oH oW n oh ow d)"
    using D(3) S(4) lanes by simp
  show "\<forall>d<C. indices_data s' ! (out + d)
               = int (snd (window_max_cl input_data C H W oH oW n oh ow d))"
    using D(4) S(3) lanes by simp
qed

lemma cl_bf16_work_unit_effect:
  fixes input_data :: "fp list"
  assumes ok: "cl_bf16_ok (i * C) C len s"
    and len: "len \<le> C" and H: "0 < H" and W: "0 < W" and i: "i < N * oH * oW"
    and fits: "int (H * W) \<le> lane_max BFloat16"
  defines "s' \<equiv> cl_bf16_work_unit input_data N C H W oH oW len i s"
  shows "cl_bf16_ok (i * C) C len s'" and "cl_frame (i * C) C s s'"
    and "\<forall>d<C. output_data s' ! (i * C + d) = fst (unit_max_cl input_data N C H W oH oW i d)"
    and "\<forall>d<C. indices_data s' ! (i * C + d) = int (snd (unit_max_cl input_data N C H W oH oW i d))"
proof -
  obtain n oh ow where di: "data_index i N oH oW = (n, oh, ow)"
    by (cases "data_index i N oH oW") auto
  have oh: "oh < oH" and ow: "ow < oW" using data_index_bounds [OF i] di by simp_all
  have u: "s' = cl_bf16_convert (i * C) len
               (cl_bf16_store (i * C) len C
                 (cl_bf16_reduce input_data n H W C (i * C) len
                    (start_index oh oH H) (end_index oh oH H)
                    (start_index ow oW W) (end_index ow oW W)
                    (cl_bf16_init (i * C) len C
                       (start_index oh oH H * W + start_index ow oW W) s)))"
    by (simp add: s'_def cl_bf16_work_unit_def di Let_def)
  have rr: "unit_max_cl input_data N C H W oH oW i d = window_max_cl input_data C H W oH oW n oh ow d"
    for d
    by (simp add: unit_max_cl_def di)
  note T = cl_bf16_four_passes [OF ok len H W oh ow fits, of input_data n, folded u]
  show "cl_bf16_ok (i * C) C len s'" by (rule T(1))
  show "cl_frame (i * C) C s s'" by (rule T(2))
  show "\<forall>d<C. output_data s' ! (i * C + d) = fst (unit_max_cl input_data N C H W oH oW i d)"
    unfolding rr by (rule T(3))
  show "\<forall>d<C. indices_data s' ! (i * C + d) = int (snd (unit_max_cl input_data N C H W oH oW i d))"
    unfolding rr by (rule T(4))
qed

lemma cl_bf16_work_unit_writes_block:
  fixes input_data :: "fp list"
  assumes len: "len \<le> C" and H: "0 < H" and W: "0 < W" and i: "i < N * oH * oW"
    and fits: "int (H * W) \<le> lane_max BFloat16"
  shows "writes_block (cl_bf16_inv len C) output_data
           (cl_bf16_work_unit input_data N C H W oH oW len i)
           (0 + i * C) C (\<lambda>d. fst (unit_max_cl input_data N C H W oH oW i d))"
    and "writes_block (cl_bf16_inv len C) indices_data
           (cl_bf16_work_unit input_data N C H W oH oW len i)
           (0 + i * C) C (\<lambda>d. int (snd (unit_max_cl input_data N C H W oH oW i d)))"
proof -
  let ?u = "cl_bf16_work_unit input_data N C H W oH oW len i"
  note E = cl_bf16_work_unit_effect [OF _ len H W i fits, of _ input_data]
  show "writes_block (cl_bf16_inv len C) output_data ?u (0 + i * C) C
          (\<lambda>d. fst (unit_max_cl input_data N C H W oH oW i d))"
  proof (rule writes_blockI)
    fix s assume inv: "cl_bf16_inv len C s" and "0 + i * C + C \<le> length (output_data s)"
    then have ok: "cl_bf16_ok (i * C) C len s"
      by (simp add: cl_bf16_inv_def cl_bf16_ok_def cl_ok_def)
    show "cl_bf16_inv len C (?u s)"
      using E(1,2) [OF ok] inv by (simp add: cl_bf16_inv_def cl_frame_def cl_bf16_ok_def)
    show "length (output_data (?u s)) = length (output_data s)"
      using E(2) [OF ok] by (simp add: cl_frame_def)
    show "output_data (?u s) ! k = output_data s ! k"
      if "\<not> (0 + i * C \<le> k \<and> k < 0 + i * C + C)" for k
      using E(2) [OF ok] that by (simp add: cl_frame_def)
    show "output_data (?u s) ! (0 + i * C + j) = fst (unit_max_cl input_data N C H W oH oW i j)"
      if "j < C" for j
      using E(3) [OF ok] that by simp
  qed
  show "writes_block (cl_bf16_inv len C) indices_data ?u (0 + i * C) C
          (\<lambda>d. int (snd (unit_max_cl input_data N C H W oH oW i d)))"
  proof (rule writes_blockI)
    fix s assume inv: "cl_bf16_inv len C s" and "0 + i * C + C \<le> length (indices_data s)"
    then have ok: "cl_bf16_ok (i * C) C len s"
      by (simp add: cl_bf16_inv_def cl_bf16_ok_def cl_ok_def)
    show "cl_bf16_inv len C (?u s)"
      using E(1,2) [OF ok] inv by (simp add: cl_bf16_inv_def cl_frame_def cl_bf16_ok_def)
    show "length (indices_data (?u s)) = length (indices_data s)"
      using E(2) [OF ok] by (simp add: cl_frame_def)
    show "indices_data (?u s) ! k = indices_data s ! k"
      if "\<not> (0 + i * C \<le> k \<and> k < 0 + i * C + C)" for k
      using E(2) [OF ok] that by (simp add: cl_frame_def)
    show "indices_data (?u s) ! (0 + i * C + j)
          = int (snd (unit_max_cl input_data N C H W oH oW i j))"
      if "j < C" for j
      using E(4) [OF ok] that by simp
  qed
qed

lemma cpu_adaptive_max_pool_channels_last_bf16_cell:
  fixes input :: "fp tensor" and output_size :: "nat list"
  defines "N \<equiv> sizes input ! 0" and "C \<equiv> sizes input ! 1"
    and "H \<equiv> sizes input ! 2" and "W \<equiv> sizes input ! 3"
    and "oH \<equiv> output_size ! 0" and "oW \<equiv> output_size ! 1"
  assumes rank: "length (sizes input) = 4" and H: "0 < H" and W: "0 < W"
    and fits: "int (H * W) \<le> lane_max BFloat16"
    and lo: "N * oH * oW * C \<le> length (data output)"
    and li: "length (data indices) = length (data output)"
    and n: "n < N" and oh: "oh < oH" and ow: "ow < oW" and d: "d < C"
  shows "\<exists>out ind.
           cpu_adaptive_max_pool_channels_last_bf16 vec_size output indices input output_size
             = Inr (out, ind)
           \<and> data out ! (((n * oH + oh) * oW + ow) * C + d)
               = fst (window_max_cl (data input) C H W oH oW n oh ow d)
           \<and> data ind ! (((n * oH + oh) * oW + ow) * C + d)
               = int (snd (window_max_cl (data input) C H W oH oW n oh ow d))"
proof -
  define len where "len = C - C mod vec_size"
  define s0 where "s0 = \<lparr>output_data = data output, indices_data = data indices,
                         index_buffer = replicate len 0, max_arr = replicate C NegInf\<rparr>"
  define s where "s = fold (cl_bf16_work_unit (data input) N C H W oH oW len)
                        [0..<N * oH * oW] s0"
  define i where "i = (n * oH + oh) * oW + ow"
  have res: "cpu_adaptive_max_pool_channels_last_bf16 vec_size output indices input output_size
             = Inr (output\<lparr>data := output_data s\<rparr>, indices\<lparr>data := indices_data s\<rparr>)"
    using rank fits
    by (simp add: cpu_adaptive_max_pool_channels_last_bf16_def Let_def s_def s0_def len_def
        N_def C_def H_def W_def oH_def oW_def)
  have len: "len \<le> C" by (simp add: len_def)
  have inv0: "cl_bf16_inv len C s0" using li by (simp add: cl_bf16_inv_def s0_def)
  have i: "i < N * oH * oW"
  proof -
    have "n * oH + oh < N * oH" by (rule cell_offset_less [OF n oh])
    then have "(n * oH + oh) * oW + ow < (N * oH) * oW" using ow by (rule cell_offset_less)
    then show ?thesis by (simp add: i_def)
  qed
  have di: "data_index i N oH oW = (n, oh, ow)"
    unfolding i_def by (rule data_index_cell [OF n oh ow])
  have wo: "writes_block (cl_bf16_inv len C) output_data
              (fold (cl_bf16_work_unit (data input) N C H W oH oW len) [0..<N * oH * oW])
              0 (N * oH * oW * C)
              (\<lambda>k. (\<lambda>i d. fst (unit_max_cl (data input) N C H W oH oW i d)) (k div C) (k mod C))"
    by (rule fold_writes_block) (rule cl_bf16_work_unit_writes_block(1) [OF len H W _ fits])
  have wi: "writes_block (cl_bf16_inv len C) indices_data
              (fold (cl_bf16_work_unit (data input) N C H W oH oW len) [0..<N * oH * oW])
              0 (N * oH * oW * C)
              (\<lambda>k. (\<lambda>i d. int (snd (unit_max_cl (data input) N C H W oH oW i d))) (k div C) (k mod C))"
    by (rule fold_writes_block) (rule cl_bf16_work_unit_writes_block(2) [OF len H W _ fits])
  have k: "i * C + d < N * oH * oW * C" using i d by (rule cell_offset_less)
  have l1: "0 + N * oH * oW * C \<le> length (output_data s0)" using lo by (simp add: s0_def)
  have l2: "0 + N * oH * oW * C \<le> length (indices_data s0)" using lo li by (simp add: s0_def)
  have "output_data s ! (0 + (i * C + d)) = fst (unit_max_cl (data input) N C H W oH oW i d)"
    unfolding s_def using writes_blockD(4) [OF wo inv0 l1 k] d by simp
  moreover have "indices_data s ! (0 + (i * C + d))
                 = int (snd (unit_max_cl (data input) N C H W oH oW i d))"
    unfolding s_def using writes_blockD(4) [OF wi inv0 l2 k] d by simp
  moreover have "unit_max_cl (data input) N C H W oH oW i d
                 = window_max_cl (data input) C H W oH oW n oh ow d"
    by (simp add: unit_max_cl_def di)
  ultimately have "data (output\<lparr>data := output_data s\<rparr>) ! (i * C + d)
                     = fst (window_max_cl (data input) C H W oH oW n oh ow d)"
    and "data (indices\<lparr>data := indices_data s\<rparr>) ! (i * C + d)
           = int (snd (window_max_cl (data input) C H W oH oW n oh ow d))"
    by simp_all
  then show ?thesis
    unfolding res i_def by blast
qed

section \<open>Failures of the forward path\<close>

lemma channels_last_kernel_result:
  assumes "length (sizes input) = 4"
  shows "lane_max scalar_t < int (sizes input ! 2 * sizes input ! 3) \<Longrightarrow>
           cpu_adaptive_max_pool_channels_last scalar_t vec_size output indices input output_size
           = Inl IndexLaneOverflow"
    and "int (sizes input ! 2 * sizes input ! 3) \<le> lane_max scalar_t \<Longrightarrow>
           \<exists>r. cpu_adaptive_max_pool_channels_last scalar_t vec_size output indices input
                  output_size = Inr r"
    and "lane_max BFloat16 < int (sizes input ! 2 * sizes input ! 3) \<Longrightarrow>
           cpu_adaptive_max_pool_channels_last_bf16 vec_size output indices input output_size
           = Inl IndexLaneOverflow"
    and "int (sizes input ! 2 * sizes input ! 3) \<le> lane_max BFloat16 \<Longrightarrow>
           \<exists>r. cpu_adaptive_max_pool_channels_last_bf16 vec_size output indices input
                  output_size = Inr r"
  using assms
  by (simp_all add: cpu_adaptive_max_pool_channels_last_def
      cpu_adaptive_max_pool_channels_last_bf16_def Let_def)

text \<open>
  C7. On a 4D input, each channels-last forward kernel (the primary template and the
  brain-float specialisation) stops with the overflow error, and so without an output,
  exactly when \<open>H * W\<close> exceeds the largest value of its index lane, and returns its two
  tensors exactly when \<open>H * W\<close> is within that bound. The bound is \<open>2 ^ 31 - 1\<close> for float
  and brain-float and \<open>2 ^ 63 - 1\<close> for double.
\<close>

theorem channels_last_overflow_check:
  assumes "length (sizes input) = 4"
  shows "(cpu_adaptive_max_pool_channels_last scalar_t vec_size output indices input output_size
            = Inl IndexLaneOverflow
          \<longleftrightarrow> lane_max scalar_t < int (sizes input ! 2 * sizes input ! 3))
       \<and> ((\<exists>r. cpu_adaptive_max_pool_channels_last scalar_t vec_size output indices input output_size
                 = Inr r)
          \<longleftrightarrow> int (sizes input ! 2 * sizes input ! 3) \<le> lane_max scalar_t)
       \<and> (cpu_adaptive_max_pool_channels_last_bf16 vec_size output indices input output_size
            = Inl IndexLaneOverflow
          \<longleftrightarrow> lane_max BFloat16 < int (sizes input ! 2 * sizes input ! 3))
       \<and> ((\<exists>r. cpu_adaptive_max_pool_channels_last_bf16 vec_size output indices input output_size
                 = Inr r)
          \<longleftrightarrow> int (sizes input ! 2 * sizes input ! 3) \<le> lane_max BFloat16)
       \<and> lane_max Float = 2 ^ 31 - 1 \<and> lane_max BFloat16 = 2 ^ 31 - 1
       \<and> lane_max Double = 2 ^ 63 - 1"
  using assms
  by (simp add: cpu_adaptive_max_pool_channels_last_def
      cpu_adaptive_max_pool_channels_last_bf16_def Let_def lane_max_def not_le)

text \<open>
  The theorem at a 4D float input of 65536 by 32768, whose \<open>H * W = 2 ^ 31\<close> is one more than
  the bound (both kernels stop; the double kernel returns), and at 32768 by 65535, which is
  below it.
\<close>

theorem channels_last_overflow_check_witness:
  "length (sizes \<lparr>sizes = [1, 1, 65536, 32768], suggest_memory_format = ChannelsLast,
                  data = replicate 2147483648 (Num 0)\<rparr>) = 4
   \<and> cpu_adaptive_max_pool_channels_last Float 8
        (at_empty [1, 1, 1, 1] ChannelsLast (Num 0)) (at_empty [1, 1, 1, 1] ChannelsLast 0)
        \<lparr>sizes = [1, 1, 65536, 32768], suggest_memory_format = ChannelsLast,
         data = replicate 2147483648 (Num 0)\<rparr> [1, 1]
      = Inl IndexLaneOverflow
   \<and> cpu_adaptive_max_pool_channels_last_bf16 8
        (at_empty [1, 1, 1, 1] ChannelsLast (Num 0)) (at_empty [1, 1, 1, 1] ChannelsLast 0)
        \<lparr>sizes = [1, 1, 65536, 32768], suggest_memory_format = ChannelsLast,
         data = replicate 2147483648 (Num 0)\<rparr> [1, 1]
      = Inl IndexLaneOverflow
   \<and> (\<exists>r. cpu_adaptive_max_pool_channels_last Double 8
        (at_empty [1, 1, 1, 1] ChannelsLast (Num 0)) (at_empty [1, 1, 1, 1] ChannelsLast 0)
        \<lparr>sizes = [1, 1, 65536, 32768], suggest_memory_format = ChannelsLast,
         data = replicate 2147483648 (Num 0)\<rparr> [1, 1]
      = Inr r)
   \<and> (\<exists>r. cpu_adaptive_max_pool_channels_last Float 8
        (at_empty [1, 1, 1, 1] ChannelsLast (Num 0)) (at_empty [1, 1, 1, 1] ChannelsLast 0)
        \<lparr>sizes = [1, 1, 32768, 65535], suggest_memory_format = ChannelsLast,
         data = replicate 2147450880 (Num 0)\<rparr> [1, 1]
      = Inr r)"
proof -
  let ?big = "\<lparr>sizes = [1, 1, 65536, 32768], suggest_memory_format = ChannelsLast,
               data = replicate 2147483648 (Num 0)\<rparr> :: fp tensor"
  let ?fits = "\<lparr>sizes = [1, 1, 32768, 65535], suggest_memory_format = ChannelsLast,
                data = replicate 2147450880 (Num 0)\<rparr> :: fp tensor"
  have r1: "length (sizes ?big) = 4" and r2: "length (sizes ?fits) = 4" by simp_all
  note a = channels_last_overflow_check [OF r1, of Float 8
      "at_empty [1, 1, 1, 1] ChannelsLast (Num 0)" "at_empty [1, 1, 1, 1] ChannelsLast 0" "[1, 1]"]
  note b = channels_last_overflow_check [OF r1, of Double 8
      "at_empty [1, 1, 1, 1] ChannelsLast (Num 0)" "at_empty [1, 1, 1, 1] ChannelsLast 0" "[1, 1]"]
  note c = channels_last_overflow_check [OF r2, of Float 8
      "at_empty [1, 1, 1, 1] ChannelsLast (Num 0)" "at_empty [1, 1, 1, 1] ChannelsLast 0" "[1, 1]"]
  show ?thesis
    using a b c by (simp add: lane_max_def)
qed

lemma find_zero_dim:
  "(find (\<lambda>i. \<not> 0 < xs ! i) [1..<n] = None) \<longleftrightarrow> \<not> (\<exists>i\<in>{1..<n}. xs ! i = (0::nat))"
  by (auto simp: find_None_iff)

lemma kernel_impl_result:
  fixes scalar_t :: scalar_type and input :: "fp tensor"
  assumes "suggest_memory_format input = ChannelsLast \<longrightarrow> length (sizes input) = 4"
    and "suggest_memory_format input = Contiguous \<or> suggest_memory_format input = ChannelsLast"
  defines "over \<equiv> suggest_memory_format input = ChannelsLast
                   \<and> lane_max scalar_t < int (sizes input ! 2 * sizes input ! 3)"
  shows "over \<Longrightarrow> adaptive_max_pool2d_kernel_impl scalar_t vec_size output indices input output_size
                   = Inl IndexLaneOverflow"
    and "\<not> over \<Longrightarrow> \<exists>r. adaptive_max_pool2d_kernel_impl scalar_t vec_size output indices input
                           output_size = Inr r"
proof -
  show "adaptive_max_pool2d_kernel_impl scalar_t vec_size output indices input output_size
          = Inl IndexLaneOverflow" if over
    using that assms(1) channels_last_kernel_result(1,3) [of input]
    by (auto simp: adaptive_max_pool2d_kernel_impl_def over_def)
  show "\<exists>r. adaptive_max_pool2d_kernel_impl scalar_t vec_size output indices input
                           output_size = Inr r" if "\<not> over"
  proof (cases "suggest_memory_format input = ChannelsLast")
    case True
    then have "int (sizes input ! 2 * sizes input ! 3) \<le> lane_max scalar_t"
      using that by (simp add: over_def)
    then show ?thesis
      using True assms(1) channels_last_kernel_result(2,4) [of input]
      by (auto simp: adaptive_max_pool2d_kernel_impl_def)
  next
    case False
    then show ?thesis using assms(2) by (simp add: adaptive_max_pool2d_kernel_impl_def)
  qed
qed

text \<open>
  C8, as amended. For an input whose layout tag is contiguous or channels-last (the latter
  only on 4D tensors), the forward dispatch shell has exactly five outcomes: the rank error
  when the rank is not 3 or 4; else the empty-dimension error when a dimension other than
  the first is 0, that is \<open>C\<close>, \<open>H\<close> or \<open>W\<close> of a 4D input and \<open>H\<close> or \<open>W\<close> of a 3D input (the
  loop of the check starts at dimension 1 for both ranks, so the channel count of a 3D input
  is not examined); else the arity error when the output size has not 2 elements; else the
  overflow error of the channels-last kernel when the layout is channels-last and \<open>H * W\<close>
  exceeds the index lane of the element type; else the pair of output and indices. The
  first three come from the shell, before the allocations and the kernel; the fourth from
  the kernel's own check, after the allocations and before the first work unit.
\<close>

theorem forward_shell_outcomes:
  fixes input :: "fp tensor" and scalar_t :: scalar_type
  defines "ndim \<equiv> length (sizes input)"
  defines "rank_ok \<equiv> (ndim = 3 \<or> ndim = 4)"
    and "empty_dim \<equiv> (\<exists>i\<in>{1..<ndim}. sizes input ! i = 0)"
    and "over \<equiv> (suggest_memory_format input = ChannelsLast
                  \<and> lane_max scalar_t < int (sizes input ! 2 * sizes input ! 3))"
  assumes "suggest_memory_format input = Contiguous \<or> suggest_memory_format input = ChannelsLast"
    and "suggest_memory_format input = ChannelsLast \<longrightarrow> length (sizes input) = 4"
  shows "(adaptive_max_pool2d_out_cpu scalar_t vec_size input output_size = Inl ExpectedRank3or4
            \<longleftrightarrow> \<not> rank_ok)
       \<and> ((\<exists>i. adaptive_max_pool2d_out_cpu scalar_t vec_size input output_size
                 = Inl (EmptyDimension i))
            \<longleftrightarrow> rank_ok \<and> empty_dim)
       \<and> (adaptive_max_pool2d_out_cpu scalar_t vec_size input output_size = Inl OutputSizeArity
            \<longleftrightarrow> rank_ok \<and> \<not> empty_dim \<and> length output_size \<noteq> 2)
       \<and> (adaptive_max_pool2d_out_cpu scalar_t vec_size input output_size = Inl IndexLaneOverflow
            \<longleftrightarrow> rank_ok \<and> \<not> empty_dim \<and> length output_size = 2 \<and> over)
       \<and> ((\<exists>r. adaptive_max_pool2d_out_cpu scalar_t vec_size input output_size = Inr r)
            \<longleftrightarrow> rank_ok \<and> \<not> empty_dim \<and> length output_size = 2 \<and> \<not> over)"
proof -
  let ?r = "adaptive_max_pool2d_out_cpu scalar_t vec_size input output_size"
  consider (rank) "\<not> rank_ok"
    | (dim) "rank_ok" "empty_dim"
    | (arity) "rank_ok" "\<not> empty_dim" "length output_size \<noteq> 2"
    | (over) "rank_ok" "\<not> empty_dim" "length output_size = 2" "over"
    | (fine) "rank_ok" "\<not> empty_dim" "length output_size = 2" "\<not> over"
    by blast
  then show ?thesis
  proof cases
    case rank
    then have "?r = Inl ExpectedRank3or4"
      by (simp add: adaptive_max_pool2d_out_cpu_def rank_ok_def ndim_def Let_def)
    then show ?thesis using rank by simp
  next
    case dim
    then obtain i where "find (\<lambda>i. \<not> 0 < sizes input ! i) [1..<ndim] = Some i"
      using find_zero_dim [of "sizes input" ndim] by (auto simp: empty_dim_def)
    then have "?r = Inl (EmptyDimension i)"
      using dim(1) by (simp add: adaptive_max_pool2d_out_cpu_def rank_ok_def ndim_def Let_def)
    then show ?thesis using dim by auto
  next
    case arity
    then have "find (\<lambda>i. \<not> 0 < sizes input ! i) [1..<ndim] = None"
      using find_zero_dim [of "sizes input" ndim] by (simp add: empty_dim_def)
    then have "?r = Inl OutputSizeArity"
      using arity by (simp add: adaptive_max_pool2d_out_cpu_def rank_ok_def ndim_def Let_def)
    then show ?thesis using arity by simp
  next
    case over
    then have f: "find (\<lambda>i. \<not> 0 < sizes input ! i) [1..<ndim] = None"
      using find_zero_dim [of "sizes input" ndim] by (simp add: empty_dim_def)
    have "?r = Inl IndexLaneOverflow"
      using over(1,3) f kernel_impl_result(1) [OF assms(6,5), of scalar_t] over(4)
      by (auto simp: adaptive_max_pool2d_out_cpu_def rank_ok_def ndim_def over_def Let_def)
    then show ?thesis using over by simp
  next
    case fine
    then have f: "find (\<lambda>i. \<not> 0 < sizes input ! i) [1..<ndim] = None"
      using find_zero_dim [of "sizes input" ndim] by (simp add: empty_dim_def)
    have "\<exists>r. ?r = Inr r"
      using fine(1,3) f kernel_impl_result(2) [OF assms(6,5), of scalar_t] fine(4)
      by (auto simp: adaptive_max_pool2d_out_cpu_def rank_ok_def ndim_def over_def Let_def)
    then show ?thesis using fine by auto
  qed
qed


text \<open>
  C8 as stated fails in both directions. A channels-last float input of 1 by 1 by 65536 by
  32768 has rank 4, no empty dimension and a supported layout, the output size has two
  elements, and the shell fails all the same, in the channels-last kernel. A contiguous 3D
  input of 0 by 3 by 3 has an empty non-batch dimension, its channels, and the shell does
  not fail: it returns an output and indices of 0 by 2 by 2.
\<close>

theorem forward_shell_counterexample:
  "length (sizes \<lparr>sizes = [1, 1, 65536, 32768], suggest_memory_format = ChannelsLast,
                  data = replicate 2147483648 (Num 0)\<rparr>) = 4
   \<and> 0 < sizes \<lparr>sizes = [1, 1, 65536, 32768], suggest_memory_format = ChannelsLast,
                  data = replicate 2147483648 (Num 0)\<rparr> ! 1
   \<and> 0 < sizes \<lparr>sizes = [1, 1, 65536, 32768], suggest_memory_format = ChannelsLast,
                  data = replicate 2147483648 (Num 0)\<rparr> ! 2
   \<and> 0 < sizes \<lparr>sizes = [1, 1, 65536, 32768], suggest_memory_format = ChannelsLast,
                  data = replicate 2147483648 (Num 0)\<rparr> ! 3
   \<and> length [1, 1 :: nat] = 2
   \<and> adaptive_max_pool2d_out_cpu Float 8
         \<lparr>sizes = [1, 1, 65536, 32768], suggest_memory_format = ChannelsLast,
          data = replicate 2147483648 (Num 0)\<rparr> [1, 1]
       = Inl IndexLaneOverflow
   \<and> length (sizes \<lparr>sizes = [0, 3, 3], suggest_memory_format = Contiguous,
                      data = ([] :: fp list)\<rparr>) = 3
   \<and> sizes \<lparr>sizes = [0, 3, 3], suggest_memory_format = Contiguous,
              data = ([] :: fp list)\<rparr> ! 0 = 0
   \<and> adaptive_max_pool2d_out_cpu Float 8
         \<lparr>sizes = [0, 3, 3], suggest_memory_format = Contiguous, data = []\<rparr> [2, 2]
       = Inr (\<lparr>sizes = [0, 2, 2], suggest_memory_format = Contiguous, data = []\<rparr>,
              \<lparr>sizes = [0, 2, 2], suggest_memory_format = Contiguous, data = []\<rparr>)"
proof -
  have "find (\<lambda>i. \<not> 0 < [1, 1, 65536, 32768 :: nat] ! i) [1..<4] = None"
    by (simp add: upt_conv_Cons)
  moreover have "find (\<lambda>i. \<not> 0 < [0, 3, 3 :: nat] ! i) [1..<3] = None"
    by (simp add: upt_conv_Cons)
  ultimately show ?thesis
    by (simp add: adaptive_max_pool2d_out_cpu_def adaptive_max_pool2d_kernel_impl_def
        cpu_adaptive_max_pool_channels_last_def cpu_adaptive_max_pool_def at_empty_def
        lane_max_def Let_def)
qed


text \<open>
  The amended theorem at seven inputs: for each outcome one (the 4 by 4 plane of scenario
  S1; the same with an output size of one element; a 2D tensor; a 4D tensor with an empty
  height; the channels-last input above), and two 3D inputs, one with an empty width, which
  fails, and the one above with no channels, which returns.
\<close>

theorem forward_shell_outcomes_witness:
  "suggest_memory_format \<lparr>sizes = [1, 1, 4, 4], suggest_memory_format = Contiguous,
                           data = map (\<lambda>k. Num (real k)) [0..<16]\<rparr> = Contiguous
   \<and> (\<exists>r. adaptive_max_pool2d_out_cpu Float 8
              \<lparr>sizes = [1, 1, 4, 4], suggest_memory_format = Contiguous,
               data = map (\<lambda>k. Num (real k)) [0..<16]\<rparr> [2, 2] = Inr r)
   \<and> adaptive_max_pool2d_out_cpu Float 8
        \<lparr>sizes = [1, 1, 4, 4], suggest_memory_format = Contiguous,
         data = map (\<lambda>k. Num (real k)) [0..<16]\<rparr> [2] = Inl OutputSizeArity
   \<and> adaptive_max_pool2d_out_cpu Float 8
        \<lparr>sizes = [4, 4], suggest_memory_format = Contiguous,
         data = map (\<lambda>k. Num (real k)) [0..<16]\<rparr> [2, 2] = Inl ExpectedRank3or4
   \<and> (\<exists>i. adaptive_max_pool2d_out_cpu Float 8
              \<lparr>sizes = [1, 1, 0, 4], suggest_memory_format = Contiguous, data = []\<rparr> [2, 2]
            = Inl (EmptyDimension i))
   \<and> adaptive_max_pool2d_out_cpu Float 8
        \<lparr>sizes = [1, 1, 65536, 32768], suggest_memory_format = ChannelsLast,
         data = replicate 2147483648 (Num 0)\<rparr> [1, 1] = Inl IndexLaneOverflow
   \<and> (\<exists>i. adaptive_max_pool2d_out_cpu Float 8
              \<lparr>sizes = [3, 3, 0], suggest_memory_format = Contiguous, data = []\<rparr> [2, 2]
            = Inl (EmptyDimension i))
   \<and> (\<exists>r. adaptive_max_pool2d_out_cpu Float 8
              \<lparr>sizes = [0, 3, 3], suggest_memory_format = Contiguous, data = []\<rparr> [2, 2]
            = Inr r)"
proof -
  let ?w = "\<lparr>sizes = [3, 3, 0], suggest_memory_format = Contiguous, data = []\<rparr> :: fp tensor"
  let ?c = "\<lparr>sizes = [0, 3, 3], suggest_memory_format = Contiguous, data = []\<rparr> :: fp tensor"
  let ?t = "\<lparr>sizes = [1, 1, 4, 4], suggest_memory_format = Contiguous,
             data = map (\<lambda>k. Num (real k)) [0..<16]\<rparr> :: fp tensor"
  let ?r = "\<lparr>sizes = [4, 4], suggest_memory_format = Contiguous,
             data = map (\<lambda>k. Num (real k)) [0..<16]\<rparr> :: fp tensor"
  let ?z = "\<lparr>sizes = [1, 1, 0, 4], suggest_memory_format = Contiguous, data = []\<rparr> :: fp tensor"
  let ?b = "\<lparr>sizes = [1, 1, 65536, 32768], suggest_memory_format = ChannelsLast,
             data = replicate 2147483648 (Num 0)\<rparr> :: fp tensor"
  have t: "suggest_memory_format ?t = Contiguous \<or> suggest_memory_format ?t = ChannelsLast"
      "suggest_memory_format ?t = ChannelsLast \<longrightarrow> length (sizes ?t) = 4"
      "length (sizes ?t) = 3 \<or> length (sizes ?t) = 4"
      "\<not> (suggest_memory_format ?t = ChannelsLast
          \<and> lane_max Float < int (sizes ?t ! 2 * sizes ?t ! 3))"
    and r: "suggest_memory_format ?r = Contiguous \<or> suggest_memory_format ?r = ChannelsLast"
      "suggest_memory_format ?r = ChannelsLast \<longrightarrow> length (sizes ?r) = 4"
      "\<not> (length (sizes ?r) = 3 \<or> length (sizes ?r) = 4)"
    and z: "suggest_memory_format ?z = Contiguous \<or> suggest_memory_format ?z = ChannelsLast"
      "suggest_memory_format ?z = ChannelsLast \<longrightarrow> length (sizes ?z) = 4"
      "length (sizes ?z) = 3 \<or> length (sizes ?z) = 4"
    and b: "suggest_memory_format ?b = Contiguous \<or> suggest_memory_format ?b = ChannelsLast"
      "suggest_memory_format ?b = ChannelsLast \<longrightarrow> length (sizes ?b) = 4"
      "length (sizes ?b) = 3 \<or> length (sizes ?b) = 4"
      "suggest_memory_format ?b = ChannelsLast
         \<and> lane_max Float < int (sizes ?b ! 2 * sizes ?b ! 3)"
    by (simp_all add: lane_max_def)
  have w: "suggest_memory_format ?w = Contiguous \<or> suggest_memory_format ?w = ChannelsLast"
      "suggest_memory_format ?w = ChannelsLast \<longrightarrow> length (sizes ?w) = 4"
      "length (sizes ?w) = 3 \<or> length (sizes ?w) = 4"
    and c: "suggest_memory_format ?c = Contiguous \<or> suggest_memory_format ?c = ChannelsLast"
      "suggest_memory_format ?c = ChannelsLast \<longrightarrow> length (sizes ?c) = 4"
      "length (sizes ?c) = 3 \<or> length (sizes ?c) = 4"
      "\<not> (suggest_memory_format ?c = ChannelsLast
          \<and> lane_max Float < int (sizes ?c ! 2 * sizes ?c ! 3))"
    by simp_all
  have wn: "\<exists>i\<in>{1..<length (sizes ?w)}. sizes ?w ! i = 0"
    using find_zero_dim [of "sizes ?w" "length (sizes ?w)"] by (simp add: upt_conv_Cons)
  have cn: "\<not> (\<exists>i\<in>{1..<length (sizes ?c)}. sizes ?c ! i = 0)"
    using find_zero_dim [of "sizes ?c" "length (sizes ?c)"] by (simp add: upt_conv_Cons)
  have a2: "length [2, 2 :: nat] = 2" and a1: "length [2 :: nat] \<noteq> 2"
    and a11: "length [1, 1 :: nat] = 2" by simp_all
  have tn: "\<not> (\<exists>i\<in>{1..<length (sizes ?t)}. sizes ?t ! i = 0)"
    using find_zero_dim [of "sizes ?t" "length (sizes ?t)"] by (simp add: upt_conv_Cons)
  have zn: "\<exists>i\<in>{1..<length (sizes ?z)}. sizes ?z ! i = 0"
    using find_zero_dim [of "sizes ?z" "length (sizes ?z)"] by (simp add: upt_conv_Cons)
  have bn: "\<not> (\<exists>i\<in>{1..<length (sizes ?b)}. sizes ?b ! i = 0)"
    using find_zero_dim [of "sizes ?b" "length (sizes ?b)"] by (simp add: upt_conv_Cons)
  have "\<exists>r. adaptive_max_pool2d_out_cpu Float 8 ?t [2, 2] = Inr r"
    using forward_shell_outcomes [OF t(1,2), of Float 8 "[2, 2]"] t(3,4) tn a2 by blast
  moreover have "adaptive_max_pool2d_out_cpu Float 8 ?t [2] = Inl OutputSizeArity"
    using forward_shell_outcomes [OF t(1,2), of Float 8 "[2]"] t(3,4) tn a1 by blast
  moreover have "adaptive_max_pool2d_out_cpu Float 8 ?r [2, 2] = Inl ExpectedRank3or4"
    using forward_shell_outcomes [OF r(1,2), of Float 8 "[2, 2]"] r(3) by blast
  moreover have "\<exists>i. adaptive_max_pool2d_out_cpu Float 8 ?z [2, 2] = Inl (EmptyDimension i)"
    using forward_shell_outcomes [OF z(1,2), of Float 8 "[2, 2]"] z(3) zn by blast
  moreover have "adaptive_max_pool2d_out_cpu Float 8 ?b [1, 1] = Inl IndexLaneOverflow"
    using forward_shell_outcomes [OF b(1,2), of Float 8 "[1, 1]"] b(3,4) bn a11 by blast
  moreover have "\<exists>i. adaptive_max_pool2d_out_cpu Float 8 ?w [2, 2] = Inl (EmptyDimension i)"
    using forward_shell_outcomes [OF w(1,2), of Float 8 "[2, 2]"] w(3) wn by blast
  moreover have "\<exists>r. adaptive_max_pool2d_out_cpu Float 8 ?c [2, 2] = Inr r"
    using forward_shell_outcomes [OF c(1,2), of Float 8 "[2, 2]"] c(3,4) cn a2 by blast
  ultimately show ?thesis by simp
qed

section \<open>Loops that add into a buffer\<close>

lemma adds_toI:
  assumes "\<And>buf. length buf = L \<Longrightarrow>
    \<exists>buf'. F buf = Inr buf' \<and> length buf' = L \<and> (\<forall>k<L. buf' ! k = foldl add (buf ! k) (contrib k))"
  shows "adds_to add F L contrib"
  unfolding adds_to_def using assms by blast

lemma adds_toD:
  assumes "adds_to add F L contrib" and "length buf = L"
  obtains buf' where "F buf = Inr buf'" and "length buf' = L"
    and "\<And>k. k < L \<Longrightarrow> buf' ! k = foldl add (buf ! k) (contrib k)"
  using assms unfolding adds_to_def by blast

lemma add_at_adds_to:
  fixes add :: "'a \<Rightarrow> 'a \<Rightarrow> 'a"
  assumes "0 \<le> off" and "off < int L"
  shows "adds_to add (\<lambda>buf. add_at add buf off v) L (\<lambda>k. if int k = off then [v] else [])"
proof (rule adds_toI)
  fix buf :: "'a list" assume len: "length buf = L"
  have "add_at add buf off v = Inr (buf[nat off := add (buf ! nat off) v])"
    using assms len by (simp add: add_at_def)
  moreover have "(buf[nat off := add (buf ! nat off) v]) ! k
                 = foldl add (buf ! k) (if int k = off then [v] else [])" if "k < L" for k
    using that assms len by (auto simp: nth_list_update)
  ultimately show "\<exists>buf'. add_at add buf off v = Inr buf' \<and> length buf' = L
        \<and> (\<forall>k<L. buf' ! k = foldl add (buf ! k) (if int k = off then [v] else []))"
    using len by simp
qed

lemma loop_adds_to:
  fixes add :: "'a \<Rightarrow> 'a \<Rightarrow> 'a"
  assumes "\<And>x. x \<in> set xs \<Longrightarrow> adds_to add (body x) L (contrib x)"
  shows "adds_to add (loop xs body) L (\<lambda>k. concat (map (\<lambda>x. contrib x k) xs))"
  using assms
proof (induction xs)
  case Nil
  show ?case by (rule adds_toI) simp
next
  case (Cons x xs)
  have hd: "adds_to add (body x) L (contrib x)" using Cons.prems by simp
  have tl: "adds_to add (loop xs body) L (\<lambda>k. concat (map (\<lambda>x. contrib x k) xs))"
    using Cons by simp
  show ?case
  proof (rule adds_toI)
    fix buf :: "'a list" assume len: "length buf = L"
    from adds_toD [OF hd len] obtain b1 where b1: "body x buf = Inr b1" "length b1 = L"
      "\<And>k. k < L \<Longrightarrow> b1 ! k = foldl add (buf ! k) (contrib x k)" by blast
    from adds_toD [OF tl b1(2)] obtain b2 where b2: "loop xs body b1 = Inr b2" "length b2 = L"
      "\<And>k. k < L \<Longrightarrow> b2 ! k = foldl add (b1 ! k) (concat (map (\<lambda>x. contrib x k) xs))" by blast
    have "loop (x # xs) body buf = Inr b2" using b1(1) b2(1) by simp
    moreover have "b2 ! k = foldl add (buf ! k) (concat (map (\<lambda>x. contrib x k) (x # xs)))"
      if "k < L" for k
      using b1(3) [OF that] b2(3) [OF that] by simp
    ultimately show "\<exists>buf'. loop (x # xs) body buf = Inr buf' \<and> length buf' = L
        \<and> (\<forall>k<L. buf' ! k = foldl add (buf ! k) (concat (map (\<lambda>x. contrib x k) (x # xs))))"
      using b2(2) by blast
  qed
qed

lemma concat_map_only:
  assumes "c < n"
  shows "concat (map (\<lambda>x. if x = c then A x else []) [0..<n]) = A c"
  using assms
proof (induction n)
  case 0
  then show ?case by simp
next
  case (Suc n)
  show ?case
  proof (cases "c = n")
    case True
    have "concat (map (\<lambda>x. if x = c then A x else []) [0..<n]) = []"
      using True by auto
    then show ?thesis using True by simp
  next
    case False
    then have "c < n" using Suc.prems by simp
    then show ?thesis using Suc.IH False by simp
  qed
qed

lemma split_offset:
  assumes "j < m" and "j' < (m::nat)"
  shows "c' * m + j' = c * m + j \<longleftrightarrow> c' = c \<and> j' = j"
proof
  assume e: "c' * m + j' = c * m + j"
  have "(c' * m + j') div m = c'" "(c * m + j) div m = c" using assms by simp_all
  then have "c' = c" using e by simp
  then show "c' = c \<and> j' = j" using e by simp
qed simp


lemma int_offset_eq:
  assumes "0 \<le> m" and "m < int M" and "j < M"
  shows "int (c * M + j) = int (c' * M) + m \<longleftrightarrow> c' = c \<and> m = int j"
proof -
  define m' where "m' = nat m"
  have m: "m = int m'" "m' < M" using assms(1,2) by (simp_all add: m'_def)
  have "int (c * M + j) = int (c' * M) + m \<longleftrightarrow> c' * M + m' = c * M + j"
    unfolding m(1) by (simp only: of_nat_add [symmetric] of_nat_eq_iff) auto
  also have "\<dots> \<longleftrightarrow> c' = c \<and> m' = j" by (rule split_offset [OF assms(3) m(2)])
  finally show ?thesis using m(1) by auto
qed

lemma concat_map_cong:
  "(\<And>x. x \<in> set xs \<Longrightarrow> f x = g x) \<Longrightarrow> concat (map f xs) = concat (map g xs)"
  by (induction xs) auto

lemma concat3_only:
  assumes Q: "\<And>c' oh ow. c' < P \<Longrightarrow> oh < A \<Longrightarrow> ow < B \<Longrightarrow> Q c' oh ow \<longleftrightarrow> c' = c \<and> R oh ow"
    and c: "c < P"
  shows "concat (map (\<lambda>c'. concat (map (\<lambda>oh. concat (map (\<lambda>ow.
            if Q c' oh ow then [v c' oh ow] else []) [0..<B])) [0..<A])) [0..<P])
         = concat (map (\<lambda>oh. concat (map (\<lambda>ow. if R oh ow then [v c oh ow] else []) [0..<B]))
             [0..<A])"
proof -
  let ?X = "\<lambda>c'. concat (map (\<lambda>oh. concat (map (\<lambda>ow.
            if Q c' oh ow then [v c' oh ow] else []) [0..<B])) [0..<A])"
  let ?Y = "\<lambda>c'. concat (map (\<lambda>oh. concat (map (\<lambda>ow. if R oh ow then [v c' oh ow] else [])
                   [0..<B])) [0..<A])"
  have "?X c' = (if c' = c then ?Y c' else [])" if "c' \<in> set [0..<P]" for c'
  proof (cases "c' = c")
    case True
    have "?X c = ?Y c"
      by (intro concat_map_cong) (simp add: Q c)
    then show ?thesis unfolding True by simp
  next
    case False
    have "?X c' = concat (map (\<lambda>oh. concat (map (\<lambda>ow. []) [0..<B])) [0..<A])"
      by (intro concat_map_cong) (use that False in \<open>simp add: Q\<close>)
    then show ?thesis using False by simp
  qed
  then have "concat (map ?X [0..<P]) = concat (map (\<lambda>c'. if c' = c then ?Y c' else []) [0..<P])"
    by (rule concat_map_cong)
  then show ?thesis by (simp only: concat_map_only [OF c])
qed

section \<open>The contiguous backward kernel\<close>

lemma backward_plane_offset:
  assumes "c < P" and "0 \<le> m" and "m < int M"
  shows "0 \<le> int (c * M) + m" and "int (c * M) + m < int (P * M)"
proof -
  show "0 \<le> int (c * M) + m" using assms(2) by simp
  have "Suc c * M \<le> P * M" using assms(1) by (intro mult_le_mono1) simp
  then have "int (c * M) + int M \<le> int (P * M)"
    by (simp only: of_nat_add [symmetric] of_nat_le_iff) simp
  then show "int (c * M) + m < int (P * M)" using assms(3) by linarith
qed

lemma cpu_adaptive_max_pool_backward_sum:
  fixes add :: "'a \<Rightarrow> 'a \<Rightarrow> 'a" and grad_input grad_output :: "'a tensor"
    and indices :: "int tensor"
  defines "P \<equiv> planes grad_output"
    and "oH \<equiv> height grad_output" and "oW \<equiv> width grad_output"
    and "H \<equiv> height grad_input" and "W \<equiv> width grad_input"
  assumes len: "length (data grad_input) = P * (H * W)"
    and range: "\<forall>k<P * (oH * oW). 0 \<le> data indices ! k \<and> data indices ! k < int (H * W)"
  shows "\<exists>g. cpu_adaptive_max_pool_backward add grad_input grad_output indices = Inr g
           \<and> sizes g = sizes grad_input \<and> length (data g) = P * (H * W)
           \<and> (\<forall>c<P. \<forall>j<H * W.
                 data g ! (c * (H * W) + j)
                 = foldl add (data grad_input ! (c * (H * W) + j))
                     [data grad_output ! (c * (oH * oW) + (oh * oW + ow)).
                        oh \<leftarrow> [0..<oH], ow \<leftarrow> [0..<oW],
                        data indices ! (c * (oH * oW) + (oh * oW + ow)) = int j])"
proof -
  define m where "m c oh ow = data indices ! (c * (oH * oW) + (oh * oW + ow))" for c oh ow
  define v where "v c oh ow = data grad_output ! (c * (oH * oW) + (oh * oW + ow))" for c oh ow
  define body where "body = (\<lambda>c. loop [0..<oH] (\<lambda>oh. loop [0..<oW] (\<lambda>ow grad_input_data.
       add_at add grad_input_data (int (c * (H * W)) + m c oh ow) (v c oh ow))))"
  define contrib where "contrib k = concat (map (\<lambda>c. concat (map (\<lambda>oh. concat (map (\<lambda>ow.
       if int k = int (c * (H * W)) + m c oh ow then [v c oh ow] else []) [0..<oW])) [0..<oH]))
       [0..<P])" for k
  have res: "cpu_adaptive_max_pool_backward add grad_input grad_output indices
             = (case loop [0..<P] body (data grad_input) of Inl e \<Rightarrow> Inl e
                | Inr d \<Rightarrow> Inr (grad_input\<lparr>data := d\<rparr>))"
    unfolding cpu_adaptive_max_pool_backward_def body_def m_def v_def
      P_def oH_def oW_def H_def W_def planes_def height_def width_def
    by (simp add: Let_def mult.assoc)
  have mr: "0 \<le> m c oh ow \<and> m c oh ow < int (H * W)" if "c < P" "oh < oH" "ow < oW" for c oh ow
  proof -
    have "c * (oH * oW) + (oh * oW + ow) < P * (oH * oW)"
      using that by (intro plane_offset_less cell_offset_less)
    then show ?thesis using range by (simp add: m_def)
  qed
  have "adds_to add (loop [0..<P] body) (P * (H * W)) contrib"
    unfolding body_def contrib_def
    by (intro loop_adds_to add_at_adds_to backward_plane_offset) (use mr in simp_all)
  from adds_toD [OF this len] obtain d where d: "loop [0..<P] body (data grad_input) = Inr d"
    "length d = P * (H * W)"
    "\<And>k. k < P * (H * W) \<Longrightarrow> d ! k = foldl add (data grad_input ! k) (contrib k)" by blast
  have c: "contrib (c * (H * W) + j)
           = [v c oh ow. oh \<leftarrow> [0..<oH], ow \<leftarrow> [0..<oW], m c oh ow = int j]"
    if "c < P" "j < H * W" for c j
  proof -
    have "(int (c * (H * W) + j) = int (c' * (H * W)) + m c' oh ow)
          = (c' = c \<and> m c' oh ow = int j)" if "c' < P" "oh < oH" "ow < oW" for c' oh ow
      using mr [OF that] \<open>j < H * W\<close> by (intro int_offset_eq) simp_all
    then show ?thesis
      unfolding contrib_def
      using concat3_only [where Q = "\<lambda>c' oh ow. int (c * (H * W) + j) = int (c' * (H * W)) + m c' oh ow"
          and R = "\<lambda>oh ow. m c oh ow = int j" and P = P and A = oH and B = oW and c = c and v = v]
        \<open>c < P\<close>
      by blast
  qed
  have "d ! (c * (H * W) + j)
        = foldl add (data grad_input ! (c * (H * W) + j))
            [v c oh ow. oh \<leftarrow> [0..<oH], ow \<leftarrow> [0..<oW], m c oh ow = int j]"
    if "c < P" "j < H * W" for c j
    using d(3) [OF plane_offset_less [OF that]] c [OF that] by simp
  then have "\<forall>c<P. \<forall>j<H * W.
                 data (grad_input\<lparr>data := d\<rparr>) ! (c * (H * W) + j)
                 = foldl add (data grad_input ! (c * (H * W) + j))
                     [data grad_output ! (c * (oH * oW) + (oh * oW + ow)).
                        oh \<leftarrow> [0..<oH], ow \<leftarrow> [0..<oW],
                        data indices ! (c * (oH * oW) + (oh * oW + ow)) = int j]"
    unfolding v_def m_def by simp
  moreover have "cpu_adaptive_max_pool_backward add grad_input grad_output indices
                 = Inr (grad_input\<lparr>data := d\<rparr>)"
    by (simp add: res d(1))
  moreover have "sizes (grad_input\<lparr>data := d\<rparr>) = sizes grad_input"
    and "length (data (grad_input\<lparr>data := d\<rparr>)) = P * (H * W)"
    by (simp_all add: d(2))
  ultimately show ?thesis by blast
qed

section \<open>The channels-last backward kernel\<close>

lemma concat4_only:
  assumes Q: "\<And>n oh ow c'. n < N \<Longrightarrow> oh < A \<Longrightarrow> ow < B \<Longrightarrow> c' < C \<Longrightarrow>
               Q n oh ow c' \<longleftrightarrow> n = n0 \<and> c' = c0 \<and> R oh ow"
    and n0: "n0 < N" and c0: "c0 < C"
  shows "concat (map (\<lambda>n. concat (map (\<lambda>oh. concat (map (\<lambda>ow. concat (map (\<lambda>c'.
            if Q n oh ow c' then [v n oh ow c'] else []) [0..<C])) [0..<B])) [0..<A])) [0..<N])
         = concat (map (\<lambda>oh. concat (map (\<lambda>ow. if R oh ow then [v n0 oh ow c0] else []) [0..<B]))
             [0..<A])"
proof -
  let ?X = "\<lambda>n. concat (map (\<lambda>oh. concat (map (\<lambda>ow. concat (map (\<lambda>c'.
            if Q n oh ow c' then [v n oh ow c'] else []) [0..<C])) [0..<B])) [0..<A])"
  let ?Y = "\<lambda>n. concat (map (\<lambda>oh. concat (map (\<lambda>ow. if R oh ow then [v n oh ow c0] else [])
                   [0..<B])) [0..<A])"
  have inner: "concat (map (\<lambda>c'. if Q n0 oh ow c' then [v n0 oh ow c'] else []) [0..<C])
               = (if R oh ow then [v n0 oh ow c0] else [])" if "oh < A" "ow < B" for oh ow
  proof -
    have "concat (map (\<lambda>c'. if Q n0 oh ow c' then [v n0 oh ow c'] else []) [0..<C])
          = concat (map (\<lambda>c'. if c' = c0 then (if R oh ow then [v n0 oh ow c'] else []) else [])
              [0..<C])"
      by (intro concat_map_cong) (use that n0 in \<open>simp add: Q\<close>)
    then show ?thesis by (simp only: concat_map_only [OF c0])
  qed
  have "?X n = (if n = n0 then ?Y n else [])" if "n \<in> set [0..<N]" for n
  proof (cases "n = n0")
    case True
    have "?X n0 = ?Y n0"
      by (intro concat_map_cong) (simp add: inner)
    then show ?thesis unfolding True by simp
  next
    case False
    have "?X n = concat (map (\<lambda>oh. concat (map (\<lambda>ow. concat (map (\<lambda>c'. []) [0..<C])) [0..<B]))
                   [0..<A])"
      by (intro concat_map_cong) (use that False in \<open>simp add: Q\<close>)
    then show ?thesis using False by simp
  qed
  then have "concat (map ?X [0..<N]) = concat (map (\<lambda>n. if n = n0 then ?Y n else []) [0..<N])"
    by (rule concat_map_cong)
  then show ?thesis by (simp only: concat_map_only [OF n0])
qed

lemma lane_offset:
  assumes "0 \<le> m" and "m < int M" and "c' < C"
  shows "0 \<le> m * int C + int c'" and "m * int C + int c' < int (M * C)"
    and "j < M \<Longrightarrow> c0 < C \<Longrightarrow> m * int C + int c' = int (j * C + c0) \<longleftrightarrow> m = int j \<and> c' = c0"
proof -
  define m' where "m' = nat m"
  have m: "m = int m'" "m' < M" using assms(1,2) by (simp_all add: m'_def)
  have e: "m * int C + int c' = int (m' * C + c')" by (simp add: m(1))
  show "0 \<le> m * int C + int c'" unfolding e by simp
  have "m' * C + c' < M * C" by (rule cell_offset_less [OF m(2) assms(3)])
  then show "m * int C + int c' < int (M * C)" unfolding e by (simp only: of_nat_less_iff)
  show "m * int C + int c' = int (j * C + c0) \<longleftrightarrow> m = int j \<and> c' = c0" if "j < M" "c0 < C"
  proof -
    have "m * int C + int c' = int (j * C + c0) \<longleftrightarrow> m' * C + c' = j * C + c0"
      unfolding e by (simp only: of_nat_eq_iff)
    also have "\<dots> \<longleftrightarrow> m' = j \<and> c' = c0" by (rule split_offset [OF that(2) assms(3)])
    finally show ?thesis using m(1) by auto
  qed
qed


lemma cpu_adaptive_max_pool_backward_channels_last_sum:
  fixes add :: "'a \<Rightarrow> 'a \<Rightarrow> 'a" and grad_input grad_output :: "'a tensor"
    and indices :: "int tensor"
  defines "N \<equiv> sizes grad_input ! 0" and "C \<equiv> sizes grad_input ! 1"
    and "H \<equiv> sizes grad_input ! 2" and "W \<equiv> sizes grad_input ! 3"
    and "oH \<equiv> sizes grad_output ! 2" and "oW \<equiv> sizes grad_output ! 3"
  assumes rank: "length (sizes grad_output) = 4"
    and len: "length (data grad_input) = N * (H * W * C)"
    and range: "\<forall>k<N * (oH * oW * C). 0 \<le> data indices ! k \<and> data indices ! k < int (H * W)"
  shows "\<exists>g. cpu_adaptive_max_pool_backward_channels_last add grad_input grad_output indices = Inr g
           \<and> sizes g = sizes grad_input \<and> length (data g) = N * (H * W * C)
           \<and> (\<forall>n<N. \<forall>j<H * W. \<forall>c<C.
                 data g ! (n * (H * W * C) + (j * C + c))
                 = foldl add (data grad_input ! (n * (H * W * C) + (j * C + c)))
                     [data grad_output ! (n * (oH * oW * C) + ((oh * oW + ow) * C + c)).
                        oh \<leftarrow> [0..<oH], ow \<leftarrow> [0..<oW],
                        data indices ! (n * (oH * oW * C) + ((oh * oW + ow) * C + c)) = int j])"
proof -
  define m where "m n oh ow c = data indices ! (n * (oH * oW * C) + ((oh * oW + ow) * C + c))"
    for n oh ow c
  define v where "v n oh ow c = data grad_output ! (n * (oH * oW * C) + ((oh * oW + ow) * C + c))"
    for n oh ow c
  define body where "body = (\<lambda>n. loop [0..<oH] (\<lambda>oh. loop [0..<oW] (\<lambda>ow. loop [0..<C]
       (\<lambda>c grad_input_data.
          add_at add grad_input_data
            (int (n * (H * W * C)) + (m n oh ow c * int C + int c)) (v n oh ow c)))))"
  define contrib where "contrib k = concat (map (\<lambda>n. concat (map (\<lambda>oh. concat (map (\<lambda>ow.
       concat (map (\<lambda>c.
         if int k = int (n * (H * W * C)) + (m n oh ow c * int C + int c)
         then [v n oh ow c] else []) [0..<C])) [0..<oW])) [0..<oH])) [0..<N])" for k
  have res: "cpu_adaptive_max_pool_backward_channels_last add grad_input grad_output indices
             = (case loop [0..<N] body (data grad_input) of Inl e \<Rightarrow> Inl e
                | Inr d \<Rightarrow> Inr (grad_input\<lparr>data := d\<rparr>))"
    unfolding cpu_adaptive_max_pool_backward_channels_last_def body_def m_def v_def
      N_def C_def oH_def oW_def H_def W_def
    using rank by (simp add: Let_def mult.assoc add.assoc add_mult_distrib)
  have mr: "0 \<le> m n oh ow c \<and> m n oh ow c < int (H * W)"
    if "n < N" "oh < oH" "ow < oW" "c < C" for n oh ow c
  proof -
    have "oh * oW + ow < oH * oW" by (rule cell_offset_less [OF that(2,3)])
    then have "(oh * oW + ow) * C + c < oH * oW * C" using that(4) by (rule cell_offset_less)
    then have "n * (oH * oW * C) + ((oh * oW + ow) * C + c) < N * (oH * oW * C)"
      by (rule plane_offset_less [OF that(1)])
    then show ?thesis using range by (simp add: m_def)
  qed
  have step: "adds_to add
      (\<lambda>grad_input_data. add_at add grad_input_data
            (int (n * (H * W * C)) + (m n oh ow c * int C + int c)) (v n oh ow c))
      (N * (H * W * C))
      (\<lambda>k. if int k = int (n * (H * W * C)) + (m n oh ow c * int C + int c)
           then [v n oh ow c] else [])"
    if "n < N" "oh < oH" "ow < oW" "c < C" for n oh ow c
  proof -
    note r = mr [OF that]
    note l = lane_offset(1,2) [OF conjunct1 [OF r] conjunct2 [OF r] that(4)]
    show ?thesis
      by (rule add_at_adds_to) (rule backward_plane_offset [OF that(1) l])+
  qed
  have "adds_to add (loop [0..<N] body) (N * (H * W * C)) contrib"
    unfolding body_def contrib_def
    by (intro loop_adds_to) (use step in simp)
  from adds_toD [OF this len] obtain d where d: "loop [0..<N] body (data grad_input) = Inr d"
    "length d = N * (H * W * C)"
    "\<And>k. k < N * (H * W * C) \<Longrightarrow> d ! k = foldl add (data grad_input ! k) (contrib k)" by blast
  have c: "contrib (n * (H * W * C) + (j * C + c))
           = [v n oh ow c. oh \<leftarrow> [0..<oH], ow \<leftarrow> [0..<oW], m n oh ow c = int j]"
    if "n < N" "j < H * W" "c < C" for n j c
  proof -
    have jc: "j * C + c < H * W * C" by (rule cell_offset_less [OF that(2,3)])
    have "(int (n * (H * W * C) + (j * C + c))
             = int (n' * (H * W * C)) + (m n' oh ow c' * int C + int c'))
          = (n' = n \<and> c' = c \<and> m n' oh ow c' = int j)"
      if "n' < N" "oh < oH" "ow < oW" "c' < C" for n' oh ow c'
    proof -
      note r = mr [OF that]
      note l = lane_offset [OF conjunct1 [OF r] conjunct2 [OF r] that(4)]
      have "(int (n * (H * W * C) + (j * C + c))
               = int (n' * (H * W * C)) + (m n' oh ow c' * int C + int c'))
            = (n' = n \<and> m n' oh ow c' * int C + int c' = int (j * C + c))"
        by (rule int_offset_eq [OF l(1) l(2) jc])
      then show ?thesis using l(3) [OF \<open>j < H * W\<close> \<open>c < C\<close>] by auto
    qed
    then show ?thesis
      unfolding contrib_def
      using concat4_only [where Q = "\<lambda>n' oh ow c'. int (n * (H * W * C) + (j * C + c))
               = int (n' * (H * W * C)) + (m n' oh ow c' * int C + int c')"
          and R = "\<lambda>oh ow. m n oh ow c = int j" and N = N and A = oH and B = oW and C = C
          and ?n0.0 = n and ?c0.0 = c and v = v]
        \<open>n < N\<close> \<open>c < C\<close>
      by blast
  qed
  have "d ! (n * (H * W * C) + (j * C + c))
        = foldl add (data grad_input ! (n * (H * W * C) + (j * C + c)))
            [v n oh ow c. oh \<leftarrow> [0..<oH], ow \<leftarrow> [0..<oW], m n oh ow c = int j]"
    if "n < N" "j < H * W" "c < C" for n j c
    using d(3) [OF plane_offset_less [OF that(1) cell_offset_less [OF that(2,3)]]] c [OF that]
    by simp
  then have "\<forall>n<N. \<forall>j<H * W. \<forall>c<C.
                 data (grad_input\<lparr>data := d\<rparr>) ! (n * (H * W * C) + (j * C + c))
                 = foldl add (data grad_input ! (n * (H * W * C) + (j * C + c)))
                     [data grad_output ! (n * (oH * oW * C) + ((oh * oW + ow) * C + c)).
                        oh \<leftarrow> [0..<oH], ow \<leftarrow> [0..<oW],
                        data indices ! (n * (oH * oW * C) + ((oh * oW + ow) * C + c)) = int j]"
    unfolding v_def m_def by simp
  moreover have "cpu_adaptive_max_pool_backward_channels_last add grad_input grad_output indices
                 = Inr (grad_input\<lparr>data := d\<rparr>)"
    by (simp add: res d(1))
  moreover have "sizes (grad_input\<lparr>data := d\<rparr>) = sizes grad_input"
    and "length (data (grad_input\<lparr>data := d\<rparr>)) = N * (H * W * C)"
    by (simp_all add: d(2))
  ultimately show ?thesis by blast
qed

text \<open>
  C5. When every stored index is in \<open>[0, H * W)\<close> and the gradient of the input starts as
  zeros, each backward kernel returns, and the cell \<open>(ih, iw)\<close> of a plane of its result is
  the sum, added up from zero in the order of the loops (rows outside, columns inside), of
  the gradients of exactly the output cells \<open>(oh, ow)\<close> of that plane whose stored index is
  \<open>ih * W + iw\<close>. For the contiguous kernel a plane is one of the \<open>N * C\<close> (or \<open>C\<close>) planes of
  the row-major buffers; for the channels-last kernel it is channel \<open>c\<close> of batch element
  \<open>n\<close> of the (N, H, W, C) buffers.
\<close>

theorem backward_sums_selected_gradients:
  fixes add :: "'a \<Rightarrow> 'a \<Rightarrow> 'a" and zero :: 'a
    and grad_input grad_output :: "'a tensor" and indices :: "int tensor"
    and grad_input' grad_output' :: "'a tensor" and indices' :: "int tensor"
  defines "P \<equiv> planes grad_output"
    and "oH \<equiv> height grad_output" and "oW \<equiv> width grad_output"
    and "H \<equiv> height grad_input" and "W \<equiv> width grad_input"
  defines "N \<equiv> sizes grad_input' ! 0" and "C \<equiv> sizes grad_input' ! 1"
    and "H' \<equiv> sizes grad_input' ! 2" and "W' \<equiv> sizes grad_input' ! 3"
    and "oH' \<equiv> sizes grad_output' ! 2" and "oW' \<equiv> sizes grad_output' ! 3"
  assumes zeros: "data grad_input = replicate (P * (H * W)) zero"
    and range: "\<forall>k<P * (oH * oW). 0 \<le> data indices ! k \<and> data indices ! k < int (H * W)"
    and rank': "length (sizes grad_output') = 4"
    and zeros': "data grad_input' = replicate (N * (H' * W' * C)) zero"
    and range': "\<forall>k<N * (oH' * oW' * C).
                   0 \<le> data indices' ! k \<and> data indices' ! k < int (H' * W')"
  shows "(\<exists>g. cpu_adaptive_max_pool_backward add grad_input grad_output indices = Inr g
            \<and> (\<forall>c<P. \<forall>ih<H. \<forall>iw<W.
                  data g ! (c * (H * W) + (ih * W + iw))
                  = foldl add zero
                      [data grad_output ! (c * (oH * oW) + (oh * oW + ow)).
                         oh \<leftarrow> [0..<oH], ow \<leftarrow> [0..<oW],
                         data indices ! (c * (oH * oW) + (oh * oW + ow)) = int (ih * W + iw)]))
       \<and> (\<exists>g. cpu_adaptive_max_pool_backward_channels_last add grad_input' grad_output' indices'
                 = Inr g
            \<and> (\<forall>n<N. \<forall>c<C. \<forall>ih<H'. \<forall>iw<W'.
                  data g ! (n * (H' * W' * C) + ((ih * W' + iw) * C + c))
                  = foldl add zero
                      [data grad_output' ! (n * (oH' * oW' * C) + ((oh * oW' + ow) * C + c)).
                         oh \<leftarrow> [0..<oH'], ow \<leftarrow> [0..<oW'],
                         data indices' ! (n * (oH' * oW' * C) + ((oh * oW' + ow) * C + c))
                           = int (ih * W' + iw)]))"
proof -
  have len: "length (data grad_input) = P * (H * W)" by (simp add: zeros)
  have len': "length (data grad_input') = N * (H' * W' * C)" by (simp add: zeros')
  from cpu_adaptive_max_pool_backward_sum [of grad_input grad_output indices add]
    len range
  obtain g where g: "cpu_adaptive_max_pool_backward add grad_input grad_output indices = Inr g"
    "\<And>c j. c < P \<Longrightarrow> j < H * W \<Longrightarrow>
        data g ! (c * (H * W) + j)
        = foldl add (data grad_input ! (c * (H * W) + j))
            [data grad_output ! (c * (oH * oW) + (oh * oW + ow)).
               oh \<leftarrow> [0..<oH], ow \<leftarrow> [0..<oW],
               data indices ! (c * (oH * oW) + (oh * oW + ow)) = int j]"
    unfolding P_def oH_def oW_def H_def W_def by blast
  from cpu_adaptive_max_pool_backward_channels_last_sum
         [of grad_output' grad_input' indices' add] rank' len' range'
  obtain g' where g':
    "cpu_adaptive_max_pool_backward_channels_last add grad_input' grad_output' indices' = Inr g'"
    "\<And>n j c. n < N \<Longrightarrow> j < H' * W' \<Longrightarrow> c < C \<Longrightarrow>
        data g' ! (n * (H' * W' * C) + (j * C + c))
        = foldl add (data grad_input' ! (n * (H' * W' * C) + (j * C + c)))
            [data grad_output' ! (n * (oH' * oW' * C) + ((oh * oW' + ow) * C + c)).
               oh \<leftarrow> [0..<oH'], ow \<leftarrow> [0..<oW'],
               data indices' ! (n * (oH' * oW' * C) + ((oh * oW' + ow) * C + c)) = int j]"
    unfolding N_def C_def H'_def W'_def oH'_def oW'_def by blast
  have z: "data grad_input ! (c * (H * W) + (ih * W + iw)) = zero"
    if "c < P" "ih < H" "iw < W" for c ih iw
    using plane_offset_less [OF that(1) cell_offset_less [OF that(2,3)]] by (simp add: zeros)
  have z': "data grad_input' ! (n * (H' * W' * C) + ((ih * W' + iw) * C + c)) = zero"
    if "n < N" "c < C" "ih < H'" "iw < W'" for n c ih iw
    using plane_offset_less [OF that(1) cell_offset_less [OF cell_offset_less [OF that(3,4)] that(2)]]
    by (simp add: zeros')
  have "\<forall>c<P. \<forall>ih<H. \<forall>iw<W.
          data g ! (c * (H * W) + (ih * W + iw))
          = foldl add zero
              [data grad_output ! (c * (oH * oW) + (oh * oW + ow)).
                 oh \<leftarrow> [0..<oH], ow \<leftarrow> [0..<oW],
                 data indices ! (c * (oH * oW) + (oh * oW + ow)) = int (ih * W + iw)]"
    using g(2) [OF _ cell_offset_less] z by simp
  moreover have "\<forall>n<N. \<forall>c<C. \<forall>ih<H'. \<forall>iw<W'.
          data g' ! (n * (H' * W' * C) + ((ih * W' + iw) * C + c))
          = foldl add zero
              [data grad_output' ! (n * (oH' * oW' * C) + ((oh * oW' + ow) * C + c)).
                 oh \<leftarrow> [0..<oH'], ow \<leftarrow> [0..<oW'],
                 data indices' ! (n * (oH' * oW' * C) + ((oh * oW' + ow) * C + c))
                   = int (ih * W' + iw)]"
    using g'(2) [OF _ cell_offset_less] z' by simp
  ultimately show ?thesis using g(1) g'(1) by blast
qed


text \<open>
  The theorem at scenario S6 (a 4 by 4 plane, indices 5, 7, 13 and 15, gradients 1) for the
  contiguous kernel, and at the indices of scenario S3 (two channels of a 2 by 2 plane,
  indices 3 and 0, gradients 10 and 20) for the channels-last kernel.
\<close>

theorem backward_sums_selected_gradients_witness:
  "(\<exists>g. cpu_adaptive_max_pool_backward (+)
           \<lparr>sizes = [1, 1, 4, 4], suggest_memory_format = Contiguous, data = replicate 16 (0::int)\<rparr>
           \<lparr>sizes = [1, 1, 2, 2], suggest_memory_format = Contiguous, data = [1, 1, 1, 1]\<rparr>
           \<lparr>sizes = [1, 1, 2, 2], suggest_memory_format = Contiguous, data = [5, 7, 13, 15]\<rparr>
         = Inr g
       \<and> data g ! 5 = 1 \<and> data g ! 7 = 1 \<and> data g ! 13 = 1 \<and> data g ! 15 = 1
       \<and> data g ! 0 = 0 \<and> data g ! 6 = 0)
   \<and> (\<exists>g. cpu_adaptive_max_pool_backward_channels_last (+)
           \<lparr>sizes = [1, 2, 2, 2], suggest_memory_format = ChannelsLast, data = replicate 8 (0::int)\<rparr>
           \<lparr>sizes = [1, 2, 1, 1], suggest_memory_format = ChannelsLast, data = [10, 20]\<rparr>
           \<lparr>sizes = [1, 2, 1, 1], suggest_memory_format = ChannelsLast, data = [3, 0]\<rparr>
         = Inr g
       \<and> data g ! 6 = 10 \<and> data g ! 1 = 20 \<and> data g ! 0 = 0)"
proof -
  let ?gi = "\<lparr>sizes = [1, 1, 4, 4], suggest_memory_format = Contiguous,
              data = replicate 16 (0::int)\<rparr>"
  let ?go = "\<lparr>sizes = [1, 1, 2, 2], suggest_memory_format = Contiguous,
              data = [1, 1, 1, 1 :: int]\<rparr>"
  let ?ind = "\<lparr>sizes = [1, 1, 2, 2], suggest_memory_format = Contiguous,
               data = [5, 7, 13, 15 :: int]\<rparr>"
  let ?gi' = "\<lparr>sizes = [1, 2, 2, 2], suggest_memory_format = ChannelsLast,
               data = replicate 8 (0::int)\<rparr>"
  let ?go' = "\<lparr>sizes = [1, 2, 1, 1], suggest_memory_format = ChannelsLast,
               data = [10, 20 :: int]\<rparr>"
  let ?ind' = "\<lparr>sizes = [1, 2, 1, 1], suggest_memory_format = ChannelsLast,
                data = [3, 0 :: int]\<rparr>"
  have h1: "data ?gi = replicate (planes ?go * (height ?gi * width ?gi)) 0"
    by (simp add: planes_def height_def width_def)
  have h2: "\<forall>k<planes ?go * (height ?go * width ?go).
              0 \<le> data ?ind ! k \<and> data ?ind ! k < int (height ?gi * width ?gi)"
    by (simp add: planes_def height_def width_def less_Suc_eq numeral_eq_Suc)
  have h3: "length (sizes ?go') = 4" by simp
  have h4: "data ?gi' = replicate (sizes ?gi' ! 0 * (sizes ?gi' ! 2 * sizes ?gi' ! 3 * sizes ?gi' ! 1)) 0"
    by simp
  have h5: "\<forall>k<sizes ?gi' ! 0 * (sizes ?go' ! 2 * sizes ?go' ! 3 * sizes ?gi' ! 1).
              0 \<le> data ?ind' ! k \<and> data ?ind' ! k < int (sizes ?gi' ! 2 * sizes ?gi' ! 3)"
    by (simp add: less_Suc_eq numeral_eq_Suc)
  let ?P = "planes ?go" and ?oH = "height ?go" and ?oW = "width ?go"
    and ?H = "height ?gi" and ?W = "width ?gi"
  let ?N = "sizes ?gi' ! 0" and ?C = "sizes ?gi' ! 1"
    and ?H' = "sizes ?gi' ! 2" and ?W' = "sizes ?gi' ! 3"
    and ?oH' = "sizes ?go' ! 2" and ?oW' = "sizes ?go' ! 3"
  from backward_sums_selected_gradients [OF h1 h2 h3 h4 h5, of "(+)"]
  obtain g g' where g: "cpu_adaptive_max_pool_backward (+) ?gi ?go ?ind = Inr g"
    and gs: "\<forall>c<?P. \<forall>ih<?H. \<forall>iw<?W.
       data g ! (c * (?H * ?W) + (ih * ?W + iw))
       = foldl (+) 0 [data ?go ! (c * (?oH * ?oW) + (oh * ?oW + ow)).
                        oh \<leftarrow> [0..<?oH], ow \<leftarrow> [0..<?oW],
                        data ?ind ! (c * (?oH * ?oW) + (oh * ?oW + ow)) = int (ih * ?W + iw)]"
    and g': "cpu_adaptive_max_pool_backward_channels_last (+) ?gi' ?go' ?ind' = Inr g'"
    and gs': "\<forall>n<?N. \<forall>c<?C. \<forall>ih<?H'. \<forall>iw<?W'.
       data g' ! (n * (?H' * ?W' * ?C) + ((ih * ?W' + iw) * ?C + c))
       = foldl (+) 0 [data ?go' ! (n * (?oH' * ?oW' * ?C) + ((oh * ?oW' + ow) * ?C + c)).
                        oh \<leftarrow> [0..<?oH'], ow \<leftarrow> [0..<?oW'],
                        data ?ind' ! (n * (?oH' * ?oW' * ?C) + ((oh * ?oW' + ow) * ?C + c))
                          = int (ih * ?W' + iw)]"
    by blast
  have "data g ! 5 = 1" "data g ! 7 = 1" "data g ! 13 = 1" "data g ! 15 = 1"
    "data g ! 0 = 0" "data g ! 6 = 0"
    using gs [rule_format, of 0 1 1] gs [rule_format, of 0 1 3] gs [rule_format, of 0 3 1]
      gs [rule_format, of 0 3 3] gs [rule_format, of 0 0 0] gs [rule_format, of 0 1 2]
    by (simp_all add: upt_conv_Cons planes_def height_def width_def)
  moreover have "data g' ! 6 = 10" "data g' ! 1 = 20" "data g' ! 0 = 0"
    using gs' [rule_format, of 0 0 1 1] gs' [rule_format, of 0 1 0 0] gs' [rule_format, of 0 0 0 0]
    by (simp_all add: upt_conv_Cons)
  ultimately show ?thesis using g g' by simp
qed

section \<open>Linearity of the backward kernels\<close>

lemma foldl_add_sum_list:
  fixes z :: "'a::monoid_add"
  shows "foldl (+) z xs = z + sum_list xs"
  by (induction xs arbitrary: z) (simp_all add: add.assoc)

lemma exact_sum_foldl:
  fixes acc :: "'a::semiring_0"
  shows "exact_sum add acc xs \<Longrightarrow> foldl add acc xs = acc + sum_list xs"
proof (induction xs arbitrary: acc)
  case Nil
  then show ?case by simp
next
  case (Cons x xs)
  from Cons.prems have a: "add acc x = acc + x" and e: "exact_sum add (add acc x) xs"
    unfolding exact_sum.simps by blast+
  have "foldl add (add acc x) xs = add acc x + sum_list xs" by (rule Cons.IH [OF e])
  then show ?case by (simp add: a add.assoc)
qed

text \<open>In exact arithmetic no operation rounds.\<close>

lemma exact_sum_exact_arithmetic: "exact_sum (+) acc xs"
  by (induction xs arbitrary: acc) simp_all

lemma exact_combination_exact_arithmetic: "exact_combination (+) (*) \<alpha> \<beta> a b"
  by (simp add: exact_combination_def)

lemma sum_list_selected_linear:
  fixes \<alpha> \<beta> :: "'a::semiring_0"
  shows "sum_list (concat (map (\<lambda>x. if R x then [\<alpha> * a x + \<beta> * b x] else []) xs))
         = \<alpha> * sum_list (concat (map (\<lambda>x. if R x then [a x] else []) xs))
           + \<beta> * sum_list (concat (map (\<lambda>x. if R x then [b x] else []) xs))"
  by (induction xs) (simp_all add: algebra_simps)

lemma sum_list_selected2_linear:
  fixes \<alpha> \<beta> :: "'a::semiring_0"
  shows "sum_list (concat (map (\<lambda>x. concat (map (\<lambda>y.
             if R x y then [\<alpha> * a x y + \<beta> * b x y] else []) ys)) xs))
         = \<alpha> * sum_list (concat (map (\<lambda>x. concat (map (\<lambda>y. if R x y then [a x y] else []) ys)) xs))
           + \<beta> * sum_list (concat (map (\<lambda>x. concat (map (\<lambda>y. if R x y then [b x y] else []) ys)) xs))"
  by (induction xs) (simp_all add: sum_list_selected_linear algebra_simps)

text \<open>
  One cell of the three runs: when the selected gradients of the combination are the
  combinations of the selected gradients, and no operation rounds.
\<close>

lemma linear_cell:
  fixes \<alpha> \<beta> :: "'a::semiring_0"
  assumes s1: "exact_sum add 0 xs1" and s2: "exact_sum add 0 xs2" and s12: "exact_sum add 0 xs12"
    and lin: "sum_list xs12 = \<alpha> * sum_list xs1 + \<beta> * sum_list xs2"
    and res: "exact_combination add mul \<alpha> \<beta> (sum_list xs1) (sum_list xs2)"
  shows "foldl add 0 xs12 = combination add mul \<alpha> \<beta> (foldl add 0 xs1) (foldl add 0 xs2)"
proof -
  from res have "combination add mul \<alpha> \<beta> (sum_list xs1) (sum_list xs2)
                 = \<alpha> * sum_list xs1 + \<beta> * sum_list xs2"
    unfolding combination_def exact_combination_def by blast
  then show ?thesis
    by (simp add: exact_sum_foldl [OF s1] exact_sum_foldl [OF s2] exact_sum_foldl [OF s12] lin)
qed

lemma backward_linear_contiguous:
  fixes add mul :: "'a::semiring_0 \<Rightarrow> 'a \<Rightarrow> 'a" and \<alpha> \<beta> :: 'a
    and grad_input g1 g2 :: "'a tensor" and indices :: "int tensor"
  defines "g12 \<equiv> g1\<lparr>data := map2 (combination add mul \<alpha> \<beta>) (data g1) (data g2)\<rparr>"
  defines "P \<equiv> planes g1" and "oH \<equiv> height g1" and "oW \<equiv> width g1"
    and "H \<equiv> height grad_input" and "W \<equiv> width grad_input"
  assumes same: "sizes g2 = sizes g1"
    and l1: "P * (oH * oW) \<le> length (data g1)" and l2: "P * (oH * oW) \<le> length (data g2)"
    and zeros: "data grad_input = replicate (P * (H * W)) 0"
    and range: "\<forall>k<P * (oH * oW). 0 \<le> data indices ! k \<and> data indices ! k < int (H * W)"
    and comb: "\<forall>k<P * (oH * oW). exact_combination add mul \<alpha> \<beta> (data g1 ! k) (data g2 ! k)"
    and sums: "\<forall>c<P. \<forall>j<H * W.
                 exact_sum add 0 (selected g1 indices c j)
                 \<and> exact_sum add 0 (selected g2 indices c j)
                 \<and> exact_sum add 0 (selected g12 indices c j)"
    and res: "\<forall>c<P. \<forall>j<H * W.
                exact_combination add mul \<alpha> \<beta>
                  (sum_list (selected g1 indices c j)) (sum_list (selected g2 indices c j))"
  shows "\<exists>r r1 r2.
           cpu_adaptive_max_pool_backward add grad_input g12 indices = Inr r
           \<and> cpu_adaptive_max_pool_backward add grad_input g1 indices = Inr r1
           \<and> cpu_adaptive_max_pool_backward add grad_input g2 indices = Inr r2
           \<and> data r = map2 (combination add mul \<alpha> \<beta>) (data r1) (data r2)"
proof -
  have shape: "planes g2 = P" "height g2 = oH" "width g2 = oW"
    "planes g12 = P" "height g12 = oH" "width g12 = oW"
    by (simp_all add: planes_def height_def width_def same g12_def P_def oH_def oW_def)
  have len: "length (data grad_input) = P * (H * W)" by (simp add: zeros)
  have sum: "\<exists>r. cpu_adaptive_max_pool_backward add grad_input g indices = Inr r
               \<and> length (data r) = P * (H * W)
               \<and> (\<forall>c<P. \<forall>j<H * W. data r ! (c * (H * W) + j)
                                     = foldl add 0 (selected g indices c j))"
    if "planes g = P" "height g = oH" "width g = oW" for g :: "'a tensor"
  proof -
    from cpu_adaptive_max_pool_backward_sum [of grad_input g indices add] len range that
    obtain r where r: "cpu_adaptive_max_pool_backward add grad_input g indices = Inr r"
      "length (data r) = P * (H * W)"
      "\<And>c j. c < P \<Longrightarrow> j < H * W \<Longrightarrow>
         data r ! (c * (H * W) + j)
         = foldl add (data grad_input ! (c * (H * W) + j))
             [data g ! (c * (oH * oW) + (oh * oW + ow)).
                oh \<leftarrow> [0..<oH], ow \<leftarrow> [0..<oW],
                data indices ! (c * (oH * oW) + (oh * oW + ow)) = int j]"
      unfolding H_def W_def by blast
    have "data r ! (c * (H * W) + j) = foldl add 0 (selected g indices c j)"
      if "c < P" "j < H * W" for c j
    proof -
      have "data grad_input ! (c * (H * W) + j) = 0"
        using plane_offset_less [OF that] by (simp add: zeros)
      then show ?thesis
        using r(3) [OF that] \<open>height g = oH\<close> \<open>width g = oW\<close> by (simp add: selected_def)
    qed
    then show ?thesis using r(1,2) by blast
  qed
  from sum [OF shape(4,5,6)] obtain r where r:
    "cpu_adaptive_max_pool_backward add grad_input g12 indices = Inr r"
    "length (data r) = P * (H * W)"
    "\<And>c j. c < P \<Longrightarrow> j < H * W \<Longrightarrow>
       data r ! (c * (H * W) + j) = foldl add 0 (selected g12 indices c j)" by blast
  from sum [of g1] obtain r1 where r1:
    "cpu_adaptive_max_pool_backward add grad_input g1 indices = Inr r1"
    "length (data r1) = P * (H * W)"
    "\<And>c j. c < P \<Longrightarrow> j < H * W \<Longrightarrow>
       data r1 ! (c * (H * W) + j) = foldl add 0 (selected g1 indices c j)"
    unfolding P_def oH_def oW_def by blast
  from sum [OF shape(1,2,3)] obtain r2 where r2:
    "cpu_adaptive_max_pool_backward add grad_input g2 indices = Inr r2"
    "length (data r2) = P * (H * W)"
    "\<And>c j. c < P \<Longrightarrow> j < H * W \<Longrightarrow>
       data r2 ! (c * (H * W) + j) = foldl add 0 (selected g2 indices c j)" by blast
  have lin: "sum_list (selected g12 indices c j)
             = \<alpha> * sum_list (selected g1 indices c j) + \<beta> * sum_list (selected g2 indices c j)"
    if "c < P" for c j
  proof -
    have e: "data g12 ! (c * (oH * oW) + (oh * oW + ow))
             = \<alpha> * data g1 ! (c * (oH * oW) + (oh * oW + ow))
               + \<beta> * data g2 ! (c * (oH * oW) + (oh * oW + ow))"
      if "oh < oH" "ow < oW" for oh ow
    proof -
      have k: "c * (oH * oW) + (oh * oW + ow) < P * (oH * oW)"
        by (rule plane_offset_less [OF \<open>c < P\<close> cell_offset_less [OF that]])
      with comb have "exact_combination add mul \<alpha> \<beta>
                        (data g1 ! (c * (oH * oW) + (oh * oW + ow)))
                        (data g2 ! (c * (oH * oW) + (oh * oW + ow)))" by blast
      then have "combination add mul \<alpha> \<beta>
                   (data g1 ! (c * (oH * oW) + (oh * oW + ow)))
                   (data g2 ! (c * (oH * oW) + (oh * oW + ow)))
                 = \<alpha> * data g1 ! (c * (oH * oW) + (oh * oW + ow))
                   + \<beta> * data g2 ! (c * (oH * oW) + (oh * oW + ow))"
        unfolding combination_def exact_combination_def by blast
      then show ?thesis
        using k l1 l2 by (simp add: g12_def)
    qed
    have "sum_list (selected g12 indices c j)
          = sum_list [\<alpha> * data g1 ! (c * (oH * oW) + (oh * oW + ow))
                      + \<beta> * data g2 ! (c * (oH * oW) + (oh * oW + ow)).
                oh \<leftarrow> [0..<oH], ow \<leftarrow> [0..<oW],
                data indices ! (c * (oH * oW) + (oh * oW + ow)) = int j]"
      unfolding selected_def shape Let_def
      by (intro arg_cong [where f = sum_list] concat_map_cong) (simp add: e)
    then show ?thesis
      unfolding selected_def shape Let_def oH_def [symmetric] oW_def [symmetric]
      by (simp only: sum_list_selected2_linear)
  qed
  have "data r = map2 (combination add mul \<alpha> \<beta>) (data r1) (data r2)"
  proof (rule nth_equalityI)
    show "length (data r) = length (map2 (combination add mul \<alpha> \<beta>) (data r1) (data r2))"
      by (simp add: r(2) r1(2) r2(2))
    fix k assume "k < length (data r)"
    then have k: "k < P * (H * W)" by (simp add: r(2))
    then have pos: "0 < H * W" by (cases "H * W = 0") simp_all
    define c where "c = k div (H * W)"
    define j where "j = k mod (H * W)"
    have c: "c < P" unfolding c_def using k pos
      by (simp add: less_mult_imp_div_less mult.commute)
    have j: "j < H * W" unfolding j_def using pos by simp
    have kk: "k = c * (H * W) + j" by (simp only: c_def j_def div_mult_mod_eq)
    from sums c j have s: "exact_sum add 0 (selected g1 indices c j)"
      "exact_sum add 0 (selected g2 indices c j)" "exact_sum add 0 (selected g12 indices c j)"
      by blast+
    from res c j have rs: "exact_combination add mul \<alpha> \<beta>
        (sum_list (selected g1 indices c j)) (sum_list (selected g2 indices c j))" by blast
    have "data r ! k = combination add mul \<alpha> \<beta> (data r1 ! k) (data r2 ! k)"
      unfolding kk r(3) [OF c j] r1(3) [OF c j] r2(3) [OF c j]
      by (rule linear_cell [OF s lin [OF c] rs])
    then show "data r ! k = map2 (combination add mul \<alpha> \<beta>) (data r1) (data r2) ! k"
      using k by (simp add: r1(2) r2(2))
  qed
  then show ?thesis using r(1) r1(1) r2(1) by blast
qed


lemma backward_linear_channels_last:
  fixes add mul :: "'a::semiring_0 \<Rightarrow> 'a \<Rightarrow> 'a" and \<alpha> \<beta> :: 'a
    and grad_input g1 g2 :: "'a tensor" and indices :: "int tensor"
  defines "g12 \<equiv> g1\<lparr>data := map2 (combination add mul \<alpha> \<beta>) (data g1) (data g2)\<rparr>"
  defines "N \<equiv> sizes grad_input ! 0" and "C \<equiv> sizes grad_input ! 1"
    and "H \<equiv> sizes grad_input ! 2" and "W \<equiv> sizes grad_input ! 3"
    and "oH \<equiv> sizes g1 ! 2" and "oW \<equiv> sizes g1 ! 3"
  assumes rank: "length (sizes g1) = 4" and same: "sizes g2 = sizes g1"
    and l1: "N * (oH * oW * C) \<le> length (data g1)"
    and l2: "N * (oH * oW * C) \<le> length (data g2)"
    and zeros: "data grad_input = replicate (N * (H * W * C)) 0"
    and range: "\<forall>k<N * (oH * oW * C). 0 \<le> data indices ! k \<and> data indices ! k < int (H * W)"
    and comb: "\<forall>k<N * (oH * oW * C).
                 exact_combination add mul \<alpha> \<beta> (data g1 ! k) (data g2 ! k)"
    and sums: "\<forall>n<N. \<forall>c<C. \<forall>j<H * W.
                 exact_sum add 0 (selected_channels_last C g1 indices n c j)
                 \<and> exact_sum add 0 (selected_channels_last C g2 indices n c j)
                 \<and> exact_sum add 0 (selected_channels_last C g12 indices n c j)"
    and res: "\<forall>n<N. \<forall>c<C. \<forall>j<H * W.
                exact_combination add mul \<alpha> \<beta>
                  (sum_list (selected_channels_last C g1 indices n c j))
                  (sum_list (selected_channels_last C g2 indices n c j))"
  shows "\<exists>r r1 r2.
           cpu_adaptive_max_pool_backward_channels_last add grad_input g12 indices = Inr r
           \<and> cpu_adaptive_max_pool_backward_channels_last add grad_input g1 indices = Inr r1
           \<and> cpu_adaptive_max_pool_backward_channels_last add grad_input g2 indices = Inr r2
           \<and> data r = map2 (combination add mul \<alpha> \<beta>) (data r1) (data r2)"
proof -
  have shape: "sizes g2 = sizes g1" "sizes g12 = sizes g1"
    by (simp_all add: same g12_def)
  have len: "length (data grad_input) = N * (H * W * C)" by (simp add: zeros)
  have sum: "\<exists>r. cpu_adaptive_max_pool_backward_channels_last add grad_input g indices = Inr r
               \<and> length (data r) = N * (H * W * C)
               \<and> (\<forall>n<N. \<forall>j<H * W. \<forall>c<C.
                     data r ! (n * (H * W * C) + (j * C + c))
                     = foldl add 0 (selected_channels_last C g indices n c j))"
    if "sizes g = sizes g1" for g :: "'a tensor"
  proof -
    have rg: "length (sizes g) = 4" and o: "sizes g ! 2 = oH" "sizes g ! 3 = oW"
      using that rank by (simp_all add: oH_def oW_def)
    from cpu_adaptive_max_pool_backward_channels_last_sum [of g grad_input indices add,
        unfolded o, folded N_def C_def H_def W_def, OF rg len range]
    obtain r where r:
      "cpu_adaptive_max_pool_backward_channels_last add grad_input g indices = Inr r"
      "length (data r) = N * (H * W * C)"
      "\<And>n j c. n < N \<Longrightarrow> j < H * W \<Longrightarrow> c < C \<Longrightarrow>
         data r ! (n * (H * W * C) + (j * C + c))
         = foldl add (data grad_input ! (n * (H * W * C) + (j * C + c)))
             [data g ! (n * (oH * oW * C) + ((oh * oW + ow) * C + c)).
                oh \<leftarrow> [0..<oH], ow \<leftarrow> [0..<oW],
                data indices ! (n * (oH * oW * C) + ((oh * oW + ow) * C + c)) = int j]"
      by blast
    have "data r ! (n * (H * W * C) + (j * C + c))
          = foldl add 0 (selected_channels_last C g indices n c j)"
      if "n < N" "j < H * W" "c < C" for n j c
    proof -
      have "data grad_input ! (n * (H * W * C) + (j * C + c)) = 0"
        using plane_offset_less [OF that(1) cell_offset_less [OF that(2,3)]]
        by (simp add: zeros)
      then show ?thesis
        using r(3) [OF that] o by (simp add: selected_channels_last_def)
    qed
    then show ?thesis using r(1,2) by blast
  qed
  from sum [OF shape(2)] obtain r where r:
    "cpu_adaptive_max_pool_backward_channels_last add grad_input g12 indices = Inr r"
    "length (data r) = N * (H * W * C)"
    "\<And>n j c. n < N \<Longrightarrow> j < H * W \<Longrightarrow> c < C \<Longrightarrow>
       data r ! (n * (H * W * C) + (j * C + c))
       = foldl add 0 (selected_channels_last C g12 indices n c j)" by blast
  from sum [of g1] obtain r1 where r1:
    "cpu_adaptive_max_pool_backward_channels_last add grad_input g1 indices = Inr r1"
    "length (data r1) = N * (H * W * C)"
    "\<And>n j c. n < N \<Longrightarrow> j < H * W \<Longrightarrow> c < C \<Longrightarrow>
       data r1 ! (n * (H * W * C) + (j * C + c))
       = foldl add 0 (selected_channels_last C g1 indices n c j)" by blast
  from sum [OF shape(1)] obtain r2 where r2:
    "cpu_adaptive_max_pool_backward_channels_last add grad_input g2 indices = Inr r2"
    "length (data r2) = N * (H * W * C)"
    "\<And>n j c. n < N \<Longrightarrow> j < H * W \<Longrightarrow> c < C \<Longrightarrow>
       data r2 ! (n * (H * W * C) + (j * C + c))
       = foldl add 0 (selected_channels_last C g2 indices n c j)" by blast
  have lin: "sum_list (selected_channels_last C g12 indices n c j)
             = \<alpha> * sum_list (selected_channels_last C g1 indices n c j)
               + \<beta> * sum_list (selected_channels_last C g2 indices n c j)"
    if "n < N" "c < C" for n c j
  proof -
    have e: "data g12 ! (n * (oH * oW * C) + ((oh * oW + ow) * C + c))
             = \<alpha> * data g1 ! (n * (oH * oW * C) + ((oh * oW + ow) * C + c))
               + \<beta> * data g2 ! (n * (oH * oW * C) + ((oh * oW + ow) * C + c))"
      if "oh < oH" "ow < oW" for oh ow
    proof -
      have k: "n * (oH * oW * C) + ((oh * oW + ow) * C + c) < N * (oH * oW * C)"
        by (rule plane_offset_less [OF \<open>n < N\<close>
              cell_offset_less [OF cell_offset_less [OF that] \<open>c < C\<close>]])
      with comb have "exact_combination add mul \<alpha> \<beta>
                        (data g1 ! (n * (oH * oW * C) + ((oh * oW + ow) * C + c)))
                        (data g2 ! (n * (oH * oW * C) + ((oh * oW + ow) * C + c)))" by blast
      then have "combination add mul \<alpha> \<beta>
                   (data g1 ! (n * (oH * oW * C) + ((oh * oW + ow) * C + c)))
                   (data g2 ! (n * (oH * oW * C) + ((oh * oW + ow) * C + c)))
                 = \<alpha> * data g1 ! (n * (oH * oW * C) + ((oh * oW + ow) * C + c))
                   + \<beta> * data g2 ! (n * (oH * oW * C) + ((oh * oW + ow) * C + c))"
        unfolding combination_def exact_combination_def by blast
      then show ?thesis
        using k l1 l2 by (simp add: g12_def)
    qed
    have "sum_list (selected_channels_last C g12 indices n c j)
          = sum_list [\<alpha> * data g1 ! (n * (oH * oW * C) + ((oh * oW + ow) * C + c))
                      + \<beta> * data g2 ! (n * (oH * oW * C) + ((oh * oW + ow) * C + c)).
                oh \<leftarrow> [0..<oH], ow \<leftarrow> [0..<oW],
                data indices ! (n * (oH * oW * C) + ((oh * oW + ow) * C + c)) = int j]"
      unfolding selected_channels_last_def shape Let_def oH_def [symmetric] oW_def [symmetric]
      by (intro arg_cong [where f = sum_list] concat_map_cong) (simp add: e)
    then show ?thesis
      unfolding selected_channels_last_def shape Let_def oH_def [symmetric] oW_def [symmetric]
      by (simp only: sum_list_selected2_linear)
  qed
  have "data r = map2 (combination add mul \<alpha> \<beta>) (data r1) (data r2)"
  proof (rule nth_equalityI)
    show "length (data r) = length (map2 (combination add mul \<alpha> \<beta>) (data r1) (data r2))"
      by (simp add: r(2) r1(2) r2(2))
    fix k assume "k < length (data r)"
    then have k: "k < N * (H * W * C)" by (simp add: r(2))
    then have pos: "0 < H * W * C" by (cases "H * W * C = 0") simp_all
    then have posC: "0 < C" by simp
    define n where "n = k div (H * W * C)"
    define m where "m = k mod (H * W * C)"
    define j where "j = m div C"
    define c where "c = m mod C"
    have n: "n < N" unfolding n_def using k pos
      by (simp add: less_mult_imp_div_less mult.commute)
    have m: "m < H * W * C" unfolding m_def using pos by simp
    have j: "j < H * W" unfolding j_def using m posC
      by (simp add: less_mult_imp_div_less)
    have c: "c < C" unfolding c_def using posC by simp
    have mm: "m = j * C + c" by (simp only: j_def c_def div_mult_mod_eq)
    have kk: "k = n * (H * W * C) + (j * C + c)"
      unfolding mm [symmetric] by (simp only: n_def m_def div_mult_mod_eq)
    from sums n c j have s: "exact_sum add 0 (selected_channels_last C g1 indices n c j)"
      "exact_sum add 0 (selected_channels_last C g2 indices n c j)"
      "exact_sum add 0 (selected_channels_last C g12 indices n c j)"
      by blast+
    from res n c j have rs: "exact_combination add mul \<alpha> \<beta>
        (sum_list (selected_channels_last C g1 indices n c j))
        (sum_list (selected_channels_last C g2 indices n c j))" by blast
    have "data r ! k = combination add mul \<alpha> \<beta> (data r1 ! k) (data r2 ! k)"
      unfolding kk r(3) [OF n j c] r1(3) [OF n j c] r2(3) [OF n j c]
      by (rule linear_cell [OF s lin [OF n c] rs])
    then show "data r ! k = map2 (combination add mul \<alpha> \<beta>) (data r1) (data r2) ! k"
      using k by (simp add: r1(2) r2(2))
  qed
  then show ?thesis using r(1) r1(1) r2(1) by blast
qed

text \<open>
  Brain-float arithmetic on natural numbers: a result below 256 is not rounded; 256 plus 1
  is 257, which is not a brain-float value and is rounded to 256.
\<close>

lemma bf16_add_small: "a + b \<le> 256 \<Longrightarrow> bf16_add a b = a + b"
proof -
  assume "a + b \<le> 256"
  then consider "a + b < 256" | "a + b = 256" by linarith
  then show ?thesis
  proof cases
    case 1
    then show ?thesis by (simp add: bf16_add_def round_sig_def)
  next
    case 2
    then show ?thesis by (simp add: bf16_add_def round_sig_def bit_length.simps Let_def)
  qed
qed

lemma bf16_mul_small: "a * b < 256 \<Longrightarrow> bf16_mul a b = a * b"
  by (simp add: bf16_mul_def round_sig_def)

lemma bf16_add_256_1: "bf16_add 256 1 = 256"
  by (simp add: bf16_add_def round_sig_def bit_length.simps Let_def)

lemma bf16_add_256_256: "bf16_add 256 256 = 512"
  by (simp add: bf16_add_def round_sig_def bit_length.simps Let_def)

lemma foldl_bf16_add_absorbs: "foldl bf16_add 256 (replicate n 1) = 256"
proof (induction n)
  case 0
  show ?case by simp
next
  case (Suc n)
  have "foldl bf16_add 256 (replicate (Suc n) 1)
        = foldl bf16_add (bf16_add 256 1) (replicate n 1)"
    by (simp only: replicate_Suc foldl_Cons)
  then show ?case by (simp only: bf16_add_256_1 Suc.IH)
qed

lemma foldl_bf16_add_ones: "k + n \<le> 256 \<Longrightarrow> foldl bf16_add k (replicate n 1) = k + n"
proof (induction n arbitrary: k)
  case 0
  then show ?case by simp
next
  case (Suc n)
  have a: "bf16_add k 1 = k + 1" using Suc.prems by (intro bf16_add_small) simp
  have "foldl bf16_add k (replicate (Suc n) 1) = foldl bf16_add (bf16_add k 1) (replicate n 1)"
    by (simp only: replicate_Suc foldl_Cons)
  also have "\<dots> = (k + 1) + n" unfolding a using Suc.prems by (intro Suc.IH) simp
  finally show ?case by simp
qed

text \<open>When every output cell of a plane of one row points at input cell 0.\<close>

lemma selected_all:
  assumes "sizes g = [1, 1, 1, n]" and "length (data g) = n" and "data indices = replicate n 0"
  shows "selected g indices 0 0 = data g"
proof -
  have "concat (map (\<lambda>ow. if replicate n (0::int) ! ow = 0 then [data g ! ow] else []) [0..<n])
        = concat (map (\<lambda>ow. [data g ! ow]) [0..<n])"
    by (intro arg_cong [where f = concat] map_cong) simp_all
  also have "\<dots> = map (\<lambda>ow. data g ! ow) [0..<n]" by (induction n) simp_all
  also have "\<dots> = data g" using map_nth [of "data g"] assms(2) by simp
  finally show ?thesis
    using assms by (simp add: selected_def height_def width_def cong: if_cong)
qed


lemma backward_into_one_cell:
  fixes add :: "'a \<Rightarrow> 'a \<Rightarrow> 'a" and g :: "'a tensor"
  assumes sz: "sizes g = [1, 1, 1, n]" and len: "length (data g) = n"
  shows "\<exists>r. cpu_adaptive_max_pool_backward add
               \<lparr>sizes = [1, 1, 1, 1], suggest_memory_format = Contiguous, data = [z]\<rparr> g
               \<lparr>sizes = [1, 1, 1, n], suggest_memory_format = Contiguous, data = replicate n 0\<rparr>
             = Inr r
           \<and> data r = [foldl add z (data g)]"
proof -
  let ?gi = "\<lparr>sizes = [1, 1, 1, 1], suggest_memory_format = Contiguous, data = [z]\<rparr>"
  let ?ind = "\<lparr>sizes = [1, 1, 1, n], suggest_memory_format = Contiguous,
               data = replicate n (0::int)\<rparr>"
  have d: "planes g = 1" "height g = 1" "width g = n" "height ?gi = 1" "width ?gi = 1"
    by (simp_all add: planes_def height_def width_def sz)
  have pre1: "length (data ?gi) = planes g * (height ?gi * width ?gi)" unfolding d by simp
  have pre2: "\<forall>k<planes g * (height g * width g).
                0 \<le> data ?ind ! k \<and> data ?ind ! k < int (height ?gi * width ?gi)"
    unfolding d by simp
  from cpu_adaptive_max_pool_backward_sum [OF pre1 pre2, of add]
  obtain r where r: "cpu_adaptive_max_pool_backward add ?gi g ?ind = Inr r"
    "length (data r) = planes g * (height ?gi * width ?gi)"
    "\<forall>c<planes g. \<forall>j<height ?gi * width ?gi.
       data r ! (c * (height ?gi * width ?gi) + j)
       = foldl add (data ?gi ! (c * (height ?gi * width ?gi) + j))
           [data g ! (c * (height g * width g) + (oh * width g + ow)).
              oh \<leftarrow> [0..<height g], ow \<leftarrow> [0..<width g],
              data ?ind ! (c * (height g * width g) + (oh * width g + ow)) = int j]"
    by blast
  have p: "0 < planes g" "0 < height ?gi * width ?gi" unfolding d by simp_all
  have "data r ! (0 * (height ?gi * width ?gi) + 0)
        = foldl add (data ?gi ! (0 * (height ?gi * width ?gi) + 0)) (selected g ?ind 0 0)"
    unfolding selected_def Let_def by (rule r(3) [rule_format, OF p])
  moreover have "selected g ?ind 0 0 = data g"
    by (rule selected_all [OF sz len]) simp
  ultimately have "data r ! 0 = foldl add z (data g)"
    unfolding d by simp
  moreover have "length (data r) = 1" using r(2) unfolding d by simp
  ultimately have "data r = [foldl add z (data g)]"
    by (cases "data r") simp_all
  then show ?thesis using r(1) by blast
qed

text \<open>
  C9 as stated fails for an element type that rounds, and not by one rounding only. A plane
  of one input cell and 257 output cells, which all point at it (as the forward operation
  makes them), brain-float gradients \<open>g1 = (256, 0, \<dots>, 0)\<close> and \<open>g2 = (0, 1, \<dots>, 1)\<close>, and
  \<open>\<alpha> = \<beta> = 1\<close>: the combination \<open>\<alpha> g1 + \<beta> g2\<close> is \<open>(256, 1, \<dots>, 1)\<close>, formed without rounding. Its
  backward is 256, because each of the 256 additions of 1 to 256 is rounded back to 256. The
  backward of \<open>g1\<close> is 256 and that of \<open>g2\<close> is 256, both without rounding, and their
  combination is 512.
\<close>

theorem backward_linearity_counterexample:
  "map2 (combination bf16_add bf16_mul 1 1) (256 # replicate 256 0) (0 # replicate 256 1)
     = 256 # replicate 256 1
   \<and> (\<exists>r r1 r2.
        cpu_adaptive_max_pool_backward bf16_add
          \<lparr>sizes = [1, 1, 1, 1], suggest_memory_format = Contiguous, data = [0]\<rparr>
          \<lparr>sizes = [1, 1, 1, 257], suggest_memory_format = Contiguous,
           data = 256 # replicate 256 1\<rparr>
          \<lparr>sizes = [1, 1, 1, 257], suggest_memory_format = Contiguous, data = replicate 257 0\<rparr>
        = Inr r
        \<and> cpu_adaptive_max_pool_backward bf16_add
          \<lparr>sizes = [1, 1, 1, 1], suggest_memory_format = Contiguous, data = [0]\<rparr>
          \<lparr>sizes = [1, 1, 1, 257], suggest_memory_format = Contiguous,
           data = 256 # replicate 256 0\<rparr>
          \<lparr>sizes = [1, 1, 1, 257], suggest_memory_format = Contiguous, data = replicate 257 0\<rparr>
        = Inr r1
        \<and> cpu_adaptive_max_pool_backward bf16_add
          \<lparr>sizes = [1, 1, 1, 1], suggest_memory_format = Contiguous, data = [0]\<rparr>
          \<lparr>sizes = [1, 1, 1, 257], suggest_memory_format = Contiguous,
           data = 0 # replicate 256 1\<rparr>
          \<lparr>sizes = [1, 1, 1, 257], suggest_memory_format = Contiguous, data = replicate 257 0\<rparr>
        = Inr r2
        \<and> data r = [256] \<and> data r1 = [256] \<and> data r2 = [256]
        \<and> map2 (combination bf16_add bf16_mul 1 1) (data r1) (data r2) = [512])"
proof -
  have m: "bf16_mul 1 256 = 256" "bf16_mul 1 0 = 0" "bf16_mul 1 1 = 1"
    by (simp_all add: bf16_mul_def round_sig_def bit_length.simps Let_def)
  have a: "bf16_add 256 0 = 256" "bf16_add 0 256 = 256" "bf16_add 0 1 = 1" "bf16_add 0 0 = 0"
    by (simp_all add: bf16_add_small)
  have comb: "map2 (combination bf16_add bf16_mul 1 1) (256 # replicate 256 0)
                (0 # replicate 256 1) = 256 # replicate 256 1"
    by (simp add: combination_def zip_replicate m [unfolded One_nat_def] a [unfolded One_nat_def])
  have f12: "foldl bf16_add 0 (256 # replicate 256 1) = 256"
    by (simp only: foldl_Cons a foldl_bf16_add_absorbs)
  have f1: "foldl bf16_add 0 (256 # replicate 256 0) = 256"
  proof -
    have "foldl bf16_add 256 (replicate n 0) = 256" for n
      by (induction n) (simp_all add: a)
    then show ?thesis by (simp only: foldl_Cons a)
  qed
  have f2: "foldl bf16_add 0 (0 # replicate 256 1) = 256"
    using foldl_bf16_add_ones [of 0 256] by (simp only: foldl_Cons a)
  from backward_into_one_cell [of "\<lparr>sizes = [1, 1, 1, 257], suggest_memory_format = Contiguous,
      data = 256 # replicate 256 1\<rparr>" 257 bf16_add 0]
  obtain r where r: "cpu_adaptive_max_pool_backward bf16_add
          \<lparr>sizes = [1, 1, 1, 1], suggest_memory_format = Contiguous, data = [0]\<rparr>
          \<lparr>sizes = [1, 1, 1, 257], suggest_memory_format = Contiguous,
           data = 256 # replicate 256 1\<rparr>
          \<lparr>sizes = [1, 1, 1, 257], suggest_memory_format = Contiguous, data = replicate 257 0\<rparr>
        = Inr r" "data r = [256]"
    using f12 by auto
  from backward_into_one_cell [of "\<lparr>sizes = [1, 1, 1, 257], suggest_memory_format = Contiguous,
      data = 256 # replicate 256 0\<rparr>" 257 bf16_add 0]
  obtain r1 where r1: "cpu_adaptive_max_pool_backward bf16_add
          \<lparr>sizes = [1, 1, 1, 1], suggest_memory_format = Contiguous, data = [0]\<rparr>
          \<lparr>sizes = [1, 1, 1, 257], suggest_memory_format = Contiguous,
           data = 256 # replicate 256 0\<rparr>
          \<lparr>sizes = [1, 1, 1, 257], suggest_memory_format = Contiguous, data = replicate 257 0\<rparr>
        = Inr r1" "data r1 = [256]"
    using f1 by auto
  from backward_into_one_cell [of "\<lparr>sizes = [1, 1, 1, 257], suggest_memory_format = Contiguous,
      data = 0 # replicate 256 1\<rparr>" 257 bf16_add 0]
  obtain r2 where r2: "cpu_adaptive_max_pool_backward bf16_add
          \<lparr>sizes = [1, 1, 1, 1], suggest_memory_format = Contiguous, data = [0]\<rparr>
          \<lparr>sizes = [1, 1, 1, 257], suggest_memory_format = Contiguous,
           data = 0 # replicate 256 1\<rparr>
          \<lparr>sizes = [1, 1, 1, 257], suggest_memory_format = Contiguous, data = replicate 257 0\<rparr>
        = Inr r2" "data r2 = [256]"
    using f2 by auto
  have c: "map2 (combination bf16_add bf16_mul 1 1) (data r1) (data r2) = [512]"
    by (simp add: r1(2) r2(2) combination_def m [unfolded One_nat_def] bf16_add_256_256)
  show ?thesis
    by (rule conjI [OF comb], rule exI [of _ r], rule exI [of _ r1], rule exI [of _ r2])
      (intro conjI r r1 r2 c)
qed

lemma all_less_numerals:
  "(\<forall>k<Suc 0. P k) \<longleftrightarrow> P 0"
  "(\<forall>k<2. P k) \<longleftrightarrow> P 0 \<and> P (Suc 0)"
  "(\<forall>k<3. P k) \<longleftrightarrow> P 0 \<and> P (Suc 0) \<and> P 2"
  "(\<forall>k<4. P k) \<longleftrightarrow> P 0 \<and> P (Suc 0) \<and> P 2 \<and> P 3"
  by (auto simp: less_Suc_eq numeral_eq_Suc)

text \<open>
  C9, as amended. The values of the element type are numbers, and its addition and
  multiplication return the exact result or a rounded one. For one indices tensor with all
  indices in range and a zero-initialised gradient of the input, and for each of the two
  backward kernels: when no operation rounds, the backward of \<open>\<alpha> g1 + \<beta> g2\<close> is \<open>\<alpha>\<close> times
  the backward of \<open>g1\<close> plus \<open>\<beta>\<close> times the backward of \<open>g2\<close>, cell by cell. The operations
  are those that form \<open>\<alpha> g1 + \<beta> g2\<close> (\<open>comb\<close>), the additions of the three runs (\<open>sums\<close>),
  and those that form the combination of the two results (\<open>res\<close>). In exact arithmetic
  these hypotheses always hold.
\<close>

theorem backward_linear_when_no_operation_rounds:
  fixes add mul :: "'a::semiring_0 \<Rightarrow> 'a \<Rightarrow> 'a" and \<alpha> \<beta> :: 'a
    and grad_input g1 g2 :: "'a tensor" and indices :: "int tensor"
    and grad_input' g1' g2' :: "'a tensor" and indices' :: "int tensor"
  defines "g12 \<equiv> g1\<lparr>data := map2 (combination add mul \<alpha> \<beta>) (data g1) (data g2)\<rparr>"
    and "g12' \<equiv> g1'\<lparr>data := map2 (combination add mul \<alpha> \<beta>) (data g1') (data g2')\<rparr>"
  defines "P \<equiv> planes g1" and "oH \<equiv> height g1" and "oW \<equiv> width g1"
    and "H \<equiv> height grad_input" and "W \<equiv> width grad_input"
  defines "N \<equiv> sizes grad_input' ! 0" and "C \<equiv> sizes grad_input' ! 1"
    and "H' \<equiv> sizes grad_input' ! 2" and "W' \<equiv> sizes grad_input' ! 3"
    and "oH' \<equiv> sizes g1' ! 2" and "oW' \<equiv> sizes g1' ! 3"
  assumes same: "sizes g2 = sizes g1"
    and l1: "P * (oH * oW) \<le> length (data g1)" and l2: "P * (oH * oW) \<le> length (data g2)"
    and zeros: "data grad_input = replicate (P * (H * W)) 0"
    and range: "\<forall>k<P * (oH * oW). 0 \<le> data indices ! k \<and> data indices ! k < int (H * W)"
    and comb: "\<forall>k<P * (oH * oW). exact_combination add mul \<alpha> \<beta> (data g1 ! k) (data g2 ! k)"
    and sums: "\<forall>c<P. \<forall>j<H * W.
                 exact_sum add 0 (selected g1 indices c j)
                 \<and> exact_sum add 0 (selected g2 indices c j)
                 \<and> exact_sum add 0 (selected g12 indices c j)"
    and res: "\<forall>c<P. \<forall>j<H * W.
                exact_combination add mul \<alpha> \<beta>
                  (sum_list (selected g1 indices c j)) (sum_list (selected g2 indices c j))"
    and rank': "length (sizes g1') = 4" and same': "sizes g2' = sizes g1'"
    and l1': "N * (oH' * oW' * C) \<le> length (data g1')"
    and l2': "N * (oH' * oW' * C) \<le> length (data g2')"
    and zeros': "data grad_input' = replicate (N * (H' * W' * C)) 0"
    and range': "\<forall>k<N * (oH' * oW' * C).
                   0 \<le> data indices' ! k \<and> data indices' ! k < int (H' * W')"
    and comb': "\<forall>k<N * (oH' * oW' * C).
                  exact_combination add mul \<alpha> \<beta> (data g1' ! k) (data g2' ! k)"
    and sums': "\<forall>n<N. \<forall>c<C. \<forall>j<H' * W'.
                  exact_sum add 0 (selected_channels_last C g1' indices' n c j)
                  \<and> exact_sum add 0 (selected_channels_last C g2' indices' n c j)
                  \<and> exact_sum add 0 (selected_channels_last C g12' indices' n c j)"
    and res': "\<forall>n<N. \<forall>c<C. \<forall>j<H' * W'.
                 exact_combination add mul \<alpha> \<beta>
                   (sum_list (selected_channels_last C g1' indices' n c j))
                   (sum_list (selected_channels_last C g2' indices' n c j))"
  shows "(\<exists>r r1 r2.
            cpu_adaptive_max_pool_backward add grad_input g12 indices = Inr r
            \<and> cpu_adaptive_max_pool_backward add grad_input g1 indices = Inr r1
            \<and> cpu_adaptive_max_pool_backward add grad_input g2 indices = Inr r2
            \<and> data r = map2 (combination add mul \<alpha> \<beta>) (data r1) (data r2))
       \<and> (\<exists>r r1 r2.
            cpu_adaptive_max_pool_backward_channels_last add grad_input' g12' indices' = Inr r
            \<and> cpu_adaptive_max_pool_backward_channels_last add grad_input' g1' indices' = Inr r1
            \<and> cpu_adaptive_max_pool_backward_channels_last add grad_input' g2' indices' = Inr r2
            \<and> data r = map2 (combination add mul \<alpha> \<beta>) (data r1) (data r2))"
proof (rule conjI)
  show "\<exists>r r1 r2.
          cpu_adaptive_max_pool_backward add grad_input g12 indices = Inr r
          \<and> cpu_adaptive_max_pool_backward add grad_input g1 indices = Inr r1
          \<and> cpu_adaptive_max_pool_backward add grad_input g2 indices = Inr r2
          \<and> data r = map2 (combination add mul \<alpha> \<beta>) (data r1) (data r2)"
    unfolding g12_def
    by (rule backward_linear_contiguous
        [OF same l1 [unfolded P_def oH_def oW_def] l2 [unfolded P_def oH_def oW_def]
          zeros [unfolded P_def H_def W_def] range [unfolded P_def oH_def oW_def H_def W_def]
          comb [unfolded P_def oH_def oW_def] sums [unfolded P_def H_def W_def g12_def]
          res [unfolded P_def H_def W_def]])
  show "\<exists>r r1 r2.
          cpu_adaptive_max_pool_backward_channels_last add grad_input' g12' indices' = Inr r
          \<and> cpu_adaptive_max_pool_backward_channels_last add grad_input' g1' indices' = Inr r1
          \<and> cpu_adaptive_max_pool_backward_channels_last add grad_input' g2' indices' = Inr r2
          \<and> data r = map2 (combination add mul \<alpha> \<beta>) (data r1) (data r2)"
    unfolding g12'_def
    by (rule backward_linear_channels_last
        [OF rank' same' l1' [unfolded N_def C_def oH'_def oW'_def]
          l2' [unfolded N_def C_def oH'_def oW'_def]
          zeros' [unfolded N_def C_def H'_def W'_def]
          range' [unfolded N_def C_def oH'_def oW'_def H'_def W'_def]
          comb' [unfolded N_def C_def oH'_def oW'_def]
          sums' [unfolded N_def C_def H'_def W'_def g12'_def]
          res' [unfolded N_def C_def H'_def W'_def]])
qed


text \<open>
  The theorem in brain-float arithmetic, which rounds (256 plus 1 is 256), on gradients
  small enough for no operation to round, with \<open>\<alpha> = 2\<close> and \<open>\<beta> = 3\<close>: for the contiguous kernel
  two input cells and three output cells, of which two point at input cell 0; for the
  channels-last kernel two channels of one input cell and two output cells.
\<close>

theorem backward_linear_when_no_operation_rounds_witness:
  "bf16_add 256 1 = 256
   \<and> map2 (combination bf16_add bf16_mul 2 3) [1, 2, 4] [10, 20, 30] = [32, 64, 98]
   \<and> (\<exists>r r1 r2.
        cpu_adaptive_max_pool_backward bf16_add
          \<lparr>sizes = [1, 1, 1, 2], suggest_memory_format = Contiguous, data = [0, 0]\<rparr>
          \<lparr>sizes = [1, 1, 1, 3], suggest_memory_format = Contiguous, data = [32, 64, 98]\<rparr>
          \<lparr>sizes = [1, 1, 1, 3], suggest_memory_format = Contiguous, data = [0, 0, 1]\<rparr>
        = Inr r
        \<and> cpu_adaptive_max_pool_backward bf16_add
          \<lparr>sizes = [1, 1, 1, 2], suggest_memory_format = Contiguous, data = [0, 0]\<rparr>
          \<lparr>sizes = [1, 1, 1, 3], suggest_memory_format = Contiguous, data = [1, 2, 4]\<rparr>
          \<lparr>sizes = [1, 1, 1, 3], suggest_memory_format = Contiguous, data = [0, 0, 1]\<rparr>
        = Inr r1
        \<and> cpu_adaptive_max_pool_backward bf16_add
          \<lparr>sizes = [1, 1, 1, 2], suggest_memory_format = Contiguous, data = [0, 0]\<rparr>
          \<lparr>sizes = [1, 1, 1, 3], suggest_memory_format = Contiguous, data = [10, 20, 30]\<rparr>
          \<lparr>sizes = [1, 1, 1, 3], suggest_memory_format = Contiguous, data = [0, 0, 1]\<rparr>
        = Inr r2
        \<and> data r = map2 (combination bf16_add bf16_mul 2 3) (data r1) (data r2))
   \<and> map2 (combination bf16_add bf16_mul 2 3) [1, 2, 4, 5] [10, 20, 30, 40] = [32, 64, 98, 130]
   \<and> (\<exists>r r1 r2.
        cpu_adaptive_max_pool_backward_channels_last bf16_add
          \<lparr>sizes = [1, 2, 1, 1], suggest_memory_format = ChannelsLast, data = [0, 0]\<rparr>
          \<lparr>sizes = [1, 2, 1, 2], suggest_memory_format = ChannelsLast,
           data = [32, 64, 98, 130]\<rparr>
          \<lparr>sizes = [1, 2, 1, 2], suggest_memory_format = ChannelsLast, data = [0, 0, 0, 0]\<rparr>
        = Inr r
        \<and> cpu_adaptive_max_pool_backward_channels_last bf16_add
          \<lparr>sizes = [1, 2, 1, 1], suggest_memory_format = ChannelsLast, data = [0, 0]\<rparr>
          \<lparr>sizes = [1, 2, 1, 2], suggest_memory_format = ChannelsLast, data = [1, 2, 4, 5]\<rparr>
          \<lparr>sizes = [1, 2, 1, 2], suggest_memory_format = ChannelsLast, data = [0, 0, 0, 0]\<rparr>
        = Inr r1
        \<and> cpu_adaptive_max_pool_backward_channels_last bf16_add
          \<lparr>sizes = [1, 2, 1, 1], suggest_memory_format = ChannelsLast, data = [0, 0]\<rparr>
          \<lparr>sizes = [1, 2, 1, 2], suggest_memory_format = ChannelsLast,
           data = [10, 20, 30, 40]\<rparr>
          \<lparr>sizes = [1, 2, 1, 2], suggest_memory_format = ChannelsLast, data = [0, 0, 0, 0]\<rparr>
        = Inr r2
        \<and> data r = map2 (combination bf16_add bf16_mul 2 3) (data r1) (data r2))"
proof -
  let ?gi = "\<lparr>sizes = [1, 1, 1, 2], suggest_memory_format = Contiguous, data = [0, 0 :: nat]\<rparr>"
  let ?g1 = "\<lparr>sizes = [1, 1, 1, 3], suggest_memory_format = Contiguous, data = [1, 2, 4 :: nat]\<rparr>"
  let ?g2 = "\<lparr>sizes = [1, 1, 1, 3], suggest_memory_format = Contiguous,
              data = [10, 20, 30 :: nat]\<rparr>"
  let ?ind = "\<lparr>sizes = [1, 1, 1, 3], suggest_memory_format = Contiguous,
               data = [0, 0, 1 :: int]\<rparr>"
  let ?gi' = "\<lparr>sizes = [1, 2, 1, 1], suggest_memory_format = ChannelsLast,
               data = [0, 0 :: nat]\<rparr>"
  let ?g1' = "\<lparr>sizes = [1, 2, 1, 2], suggest_memory_format = ChannelsLast,
               data = [1, 2, 4, 5 :: nat]\<rparr>"
  let ?g2' = "\<lparr>sizes = [1, 2, 1, 2], suggest_memory_format = ChannelsLast,
               data = [10, 20, 30, 40 :: nat]\<rparr>"
  let ?ind' = "\<lparr>sizes = [1, 2, 1, 2], suggest_memory_format = ChannelsLast,
                data = [0, 0, 0, 0 :: int]\<rparr>"
  let ?g12 = "?g1\<lparr>data := map2 (combination bf16_add bf16_mul 2 3) (data ?g1) (data ?g2)\<rparr>"
  let ?g12' = "?g1'\<lparr>data := map2 (combination bf16_add bf16_mul 2 3) (data ?g1') (data ?g2')\<rparr>"
  note ev = planes_def height_def width_def selected_def selected_channels_last_def
    combination_def exact_combination_def bf16_add_small bf16_mul_small upt_conv_Cons Let_def
    all_less_numerals
  have same: "sizes ?g2 = sizes ?g1" by simp
  have l1: "planes ?g1 * (height ?g1 * width ?g1) \<le> length (data ?g1)"
    and l2: "planes ?g1 * (height ?g1 * width ?g1) \<le> length (data ?g2)"
    by (simp_all add: ev)
  have zeros: "data ?gi = replicate (planes ?g1 * (height ?gi * width ?gi)) 0"
    by (simp add: ev numeral_2_eq_2)
  have range: "\<forall>k<planes ?g1 * (height ?g1 * width ?g1).
                 0 \<le> data ?ind ! k \<and> data ?ind ! k < int (height ?gi * width ?gi)"
    by (simp add: ev)
  have comb: "\<forall>k<planes ?g1 * (height ?g1 * width ?g1).
                exact_combination bf16_add bf16_mul 2 3 (data ?g1 ! k) (data ?g2 ! k)"
    by (simp add: ev)
  have sums: "\<forall>c<planes ?g1. \<forall>j<height ?gi * width ?gi.
                exact_sum bf16_add 0 (selected ?g1 ?ind c j)
                \<and> exact_sum bf16_add 0 (selected ?g2 ?ind c j)
                \<and> exact_sum bf16_add 0 (selected ?g12 ?ind c j)"
    by (simp add: ev)
  have res: "\<forall>c<planes ?g1. \<forall>j<height ?gi * width ?gi.
               exact_combination bf16_add bf16_mul 2 3
                 (sum_list (selected ?g1 ?ind c j)) (sum_list (selected ?g2 ?ind c j))"
    by (simp add: ev)
  have rank': "length (sizes ?g1') = 4" and same': "sizes ?g2' = sizes ?g1'" by simp_all
  have l1': "sizes ?gi' ! 0 * (sizes ?g1' ! 2 * sizes ?g1' ! 3 * sizes ?gi' ! 1)
             \<le> length (data ?g1')"
    and l2': "sizes ?gi' ! 0 * (sizes ?g1' ! 2 * sizes ?g1' ! 3 * sizes ?gi' ! 1)
              \<le> length (data ?g2')"
    by (simp_all add: ev)
  have zeros': "data ?gi' = replicate (sizes ?gi' ! 0
                  * (sizes ?gi' ! 2 * sizes ?gi' ! 3 * sizes ?gi' ! 1)) 0"
    by (simp add: ev numeral_2_eq_2)
  have range': "\<forall>k<sizes ?gi' ! 0 * (sizes ?g1' ! 2 * sizes ?g1' ! 3 * sizes ?gi' ! 1).
                  0 \<le> data ?ind' ! k \<and> data ?ind' ! k < int (sizes ?gi' ! 2 * sizes ?gi' ! 3)"
    by (simp add: ev)
  have comb': "\<forall>k<sizes ?gi' ! 0 * (sizes ?g1' ! 2 * sizes ?g1' ! 3 * sizes ?gi' ! 1).
                 exact_combination bf16_add bf16_mul 2 3 (data ?g1' ! k) (data ?g2' ! k)"
    by (simp add: ev)
  have sums': "\<forall>n<sizes ?gi' ! 0. \<forall>c<sizes ?gi' ! 1. \<forall>j<sizes ?gi' ! 2 * sizes ?gi' ! 3.
                 exact_sum bf16_add 0 (selected_channels_last (sizes ?gi' ! 1) ?g1' ?ind' n c j)
                 \<and> exact_sum bf16_add 0
                     (selected_channels_last (sizes ?gi' ! 1) ?g2' ?ind' n c j)
                 \<and> exact_sum bf16_add 0
                     (selected_channels_last (sizes ?gi' ! 1) ?g12' ?ind' n c j)"
    by (simp add: ev)
  have res': "\<forall>n<sizes ?gi' ! 0. \<forall>c<sizes ?gi' ! 1. \<forall>j<sizes ?gi' ! 2 * sizes ?gi' ! 3.
                exact_combination bf16_add bf16_mul 2 3
                  (sum_list (selected_channels_last (sizes ?gi' ! 1) ?g1' ?ind' n c j))
                  (sum_list (selected_channels_last (sizes ?gi' ! 1) ?g2' ?ind' n c j))"
    by (simp add: ev)
  note t = backward_linear_when_no_operation_rounds
    [OF same l1 l2 zeros range comb sums res rank' same' l1' l2' zeros' range' comb' sums' res']
  from t have "?thesis \<longleftrightarrow> True"
    by (simp add: bf16_add_256_1 [unfolded One_nat_def] combination_def bf16_add_small
        bf16_mul_small)
  then show ?thesis by simp
qed

section \<open>What a scan leaves\<close>

lemma fgt_NaN [simp]: "\<not> fgt x NaN" "\<not> fgt NaN x"
  by (cases x; simp)+

lemma fgt_irrefl [simp]: "\<not> fgt x x"
  by (cases x) simp_all

lemma fgt_asym: "fgt a b \<Longrightarrow> \<not> fgt b a"
  by (cases a; cases b) simp_all

lemma fgt_trans: "fgt a b \<Longrightarrow> fgt b c \<Longrightarrow> fgt a c"
  by (cases a; cases b; cases c) simp_all

lemma fgt_le_trans: "fgt a b \<Longrightarrow> \<not> fgt c b \<Longrightarrow> \<not> isnan c \<Longrightarrow> fgt a c"
  by (cases a; cases b; cases c) (simp_all add: isnan_def)

lemma fgt_total: "\<not> isnan a \<Longrightarrow> \<not> isnan b \<Longrightarrow> fgt a b \<or> a = b \<or> fgt b a"
  by (cases a; cases b) (auto simp: isnan_def)

lemma not_fgt_NegInf: "\<not> isnan v \<Longrightarrow> \<not> fgt v NegInf \<longleftrightarrow> v = NegInf"
  by (cases v) (simp_all add: isnan_def)

lemma scan_Nil [simp]: "scan x [] st = st"
  by (simp add: scan_def)

lemma scan_Cons [simp]: "scan x (j # js) st = scan x js (scan_step (x j) j st)"
  by (simp add: scan_def)

lemma scan_append [simp]: "scan x (js @ ks) st = scan x ks (scan x js st)"
  by (simp add: scan_def)

lemma scan_cong: "(\<And>j. j \<in> set js \<Longrightarrow> x j = y j) \<Longrightarrow> scan x js st = scan y js st"
  by (induction js arbitrary: st) simp_all

text \<open>Values that are neither greater nor not-a-number leave the state as it is.\<close>

lemma scan_keeps:
  assumes "\<forall>k\<in>set js. \<not> fgt (x k) m \<and> \<not> isnan (x k)"
  shows "scan x js (m, i) = (m, i)"
  using assms by (induction js) (simp_all add: scan_step_def)

text \<open>The running maximum is the initial one or a value of the list.\<close>

lemma scan_value:
  "fst (scan x js (m, i)) = m \<or> (\<exists>k\<in>set js. fst (scan x js (m, i)) = x k)"
proof (induction js arbitrary: m i)
  case Nil
  then show ?case by simp
next
  case (Cons j js)
  show ?case
    using Cons.IH [of "x j" j] Cons.IH [of m i] by (auto simp: scan_step_def)
qed

text \<open>
  With a not-a-number in the list, the scan leaves not-a-number and the position of the
  last one.
\<close>

lemma scan_last_nan:
  assumes "js = pre @ j # post" and "isnan (x j)" and "\<forall>k\<in>set post. \<not> isnan (x k)"
  shows "scan x js st = (NaN, j)"
proof -
  have "scan_step (x j) j (scan x pre st) = (NaN, j)"
    using assms(2) by (cases "scan x pre st") (simp add: scan_step_def isnan_def)
  moreover have "scan x post (NaN, j) = (NaN, j)"
    by (rule scan_keeps) (use assms(3) in simp)
  ultimately show ?thesis by (simp add: assms(1))
qed

text \<open>
  Without a not-a-number, the scan from minus infinity leaves a value that nothing in the
  list exceeds, and the position of its first occurrence: if position \<open>j\<close> holds a value
  above minus infinity that exceeds every value before it and is not exceeded after it,
  the scan leaves that value and \<open>j\<close>.
\<close>

lemma scan_first_max:
  assumes js: "js = pre @ j # post"
    and nonan: "\<forall>k\<in>set js. \<not> isnan (x k)"
    and above: "fgt (x j) NegInf"
    and before: "\<forall>k\<in>set pre. fgt (x j) (x k)"
    and after: "\<forall>k\<in>set post. \<not> fgt (x k) (x j)"
  shows "scan x js (NegInf, j0) = (x j, j)"
proof -
  obtain m i where p: "scan x pre (NegInf, j0) = (m, i)" by (cases "scan x pre (NegInf, j0)")
  have "m = NegInf \<or> (\<exists>k\<in>set pre. m = x k)"
    using scan_value [of x pre NegInf j0] p by simp
  then have "fgt (x j) m" using above before by auto
  then have "scan_step (x j) j (m, i) = (x j, j)" by (simp add: scan_step_def)
  moreover have "scan x post (x j, j) = (x j, j)"
    by (rule scan_keeps) (use after nonan js in simp)
  ultimately show ?thesis by (simp add: js p)
qed

text \<open>Nothing in the list exceeds what the scan leaves, when the list has no not-a-number.\<close>

lemma scan_upper_bound:
  assumes "\<forall>k\<in>set js. \<not> isnan (x k)" and "\<not> isnan m"
  shows "\<not> isnan (fst (scan x js (m, i))) \<and> \<not> fgt m (fst (scan x js (m, i)))
         \<and> (\<forall>k\<in>set js. \<not> fgt (x k) (fst (scan x js (m, i))))"
  using assms
proof (induction js arbitrary: m i)
  case Nil
  then show ?case by simp
next
  case (Cons j js)
  show ?case
  proof (cases "fgt (x j) m")
    case True
    then have s: "scan_step (x j) j (m, i) = (x j, j)" by (simp add: scan_step_def)
    have IH: "\<not> isnan (fst (scan x js (x j, j))) \<and> \<not> fgt (x j) (fst (scan x js (x j, j)))
         \<and> (\<forall>k\<in>set js. \<not> fgt (x k) (fst (scan x js (x j, j))))"
      by (rule Cons.IH) (use Cons.prems in simp_all)
    have "\<not> fgt m (fst (scan x js (x j, j)))"
      using IH True Cons.prems(2) by (meson fgt_le_trans fgt_asym)
    then show ?thesis using IH by (simp add: s)
  next
    case False
    then have s: "scan_step (x j) j (m, i) = (m, i)"
      using Cons.prems(1) by (simp add: scan_step_def)
    have IH: "\<not> isnan (fst (scan x js (m, i))) \<and> \<not> fgt m (fst (scan x js (m, i)))
         \<and> (\<forall>k\<in>set js. \<not> fgt (x k) (fst (scan x js (m, i))))"
      by (rule Cons.IH) (use Cons.prems in simp_all)
    have "\<not> fgt (x j) (fst (scan x js (m, i)))"
      using IH False Cons.prems by (metis fgt_le_trans fgt_total list.set_intros(1))
    then show ?thesis using IH by (simp add: s)
  qed
qed

text \<open>
  When every value of the list is minus infinity, the comparison never fires: the scan
  leaves minus infinity and the index it started with.
\<close>

lemma scan_all_neg_inf:
  assumes "\<forall>k\<in>set js. x k = NegInf"
  shows "scan x js (NegInf, j0) = (NegInf, j0)"
  by (rule scan_keeps) (use assms in \<open>simp add: isnan_def\<close>)

section \<open>The forward operation, cell by cell\<close>

lemma find_no_zero_dim:
  assumes "\<forall>i\<in>{1..<n}. 0 < xs ! i"
  shows "find (\<lambda>i. \<not> 0 < (xs ! i :: nat)) [1..<n] = None"
  using assms by (auto simp: find_None_iff)

lemma forward_shell_contiguous:
  fixes input :: "fp tensor"
  assumes rank: "length (sizes input) = 3 \<or> length (sizes input) = 4"
    and dims: "\<forall>i\<in>{1..<length (sizes input)}. 0 < sizes input ! i"
    and arity: "length output_size = 2"
    and fmt: "suggest_memory_format input = Contiguous"
  shows "\<exists>output indices.
           adaptive_max_pool2d_out_cpu scalar_t vec_size input output_size
             = Inr (cpu_adaptive_max_pool scalar_t output indices input output_size)
           \<and> length (data output) = planes input * (output_size ! 0 * output_size ! 1)
           \<and> length (data indices) = planes input * (output_size ! 0 * output_size ! 1)"
proof -
  note f = find_no_zero_dim [OF dims]
  show ?thesis
  proof (cases "length (sizes input) = 3")
    case True
    then show ?thesis
      using f arity fmt
      by (auto simp: adaptive_max_pool2d_out_cpu_def adaptive_max_pool2d_kernel_impl_def
          Let_def at_empty_def planes_def intro!: exI)
  next
    case False
    then have "length (sizes input) = 4" using rank by simp
    then show ?thesis
      using f arity fmt
      by (auto simp: adaptive_max_pool2d_out_cpu_def adaptive_max_pool2d_kernel_impl_def
          Let_def at_empty_def planes_def mult.assoc intro!: exI)
  qed
qed

text \<open>
  The forward operation on a contiguous input: it returns, the output cell holds the
  maximum that the scan of its window leaves, and the indices cell holds the index that the
  scan leaves, converted to the element type and back.
\<close>

lemma forward_contiguous_cell:
  fixes input :: "fp tensor" and output_size :: "nat list"
  defines "oH \<equiv> output_size ! 0" and "oW \<equiv> output_size ! 1"
  assumes rank: "length (sizes input) = 3 \<or> length (sizes input) = 4"
    and dims: "\<forall>i\<in>{1..<length (sizes input)}. 0 < sizes input ! i"
    and arity: "length output_size = 2"
    and fmt: "suggest_memory_format input = Contiguous"
    and c: "c < planes input" and oh: "oh < oH" and ow: "ow < oW"
  shows "\<exists>out ind.
           adaptive_max_pool2d_out_cpu scalar_t vec_size input output_size = Inr (out, ind)
           \<and> data out ! (c * (oH * oW) + oh * oW + ow)
               = fst (window_max (data input) (c * height input * width input)
                        (height input) (width input) oH oW oh ow)
           \<and> data ind ! (c * (oH * oW) + oh * oW + ow)
               = int (cast_index scalar_t
                   (snd (window_max (data input) (c * height input * width input)
                           (height input) (width input) oH oW oh ow)))"
proof -
  from forward_shell_contiguous [OF rank dims arity fmt, of scalar_t vec_size]
  obtain obuf ibuf where s:
    "adaptive_max_pool2d_out_cpu scalar_t vec_size input output_size
       = Inr (cpu_adaptive_max_pool scalar_t obuf ibuf input output_size)"
    "length (data obuf) = planes input * (oH * oW)"
    "length (data ibuf) = planes input * (oH * oW)"
    unfolding oH_def oW_def by blast
  have lo: "planes input * (output_size ! 0 * output_size ! 1) \<le> length (data obuf)"
    and li: "planes input * (output_size ! 0 * output_size ! 1) \<le> length (data ibuf)"
    using s(2,3) by (simp_all add: oH_def oW_def)
  note k = cpu_adaptive_max_pool_cell [OF c oh [unfolded oH_def] ow [unfolded oW_def] lo li,
      of scalar_t, folded oH_def oW_def]
  obtain out ind where r: "cpu_adaptive_max_pool scalar_t obuf ibuf input output_size
                           = (out, ind)"
    by (cases "cpu_adaptive_max_pool scalar_t obuf ibuf input output_size")
  show ?thesis using s(1) k by (simp add: r)
qed

lemma forward_channels_last_cell:
  fixes input :: "fp tensor" and output_size :: "nat list"
  defines "N \<equiv> sizes input ! 0" and "C \<equiv> sizes input ! 1"
    and "H \<equiv> sizes input ! 2" and "W \<equiv> sizes input ! 3"
    and "oH \<equiv> output_size ! 0" and "oW \<equiv> output_size ! 1"
  assumes rank: "length (sizes input) = 4"
    and dims: "\<forall>i\<in>{1..<length (sizes input)}. 0 < sizes input ! i"
    and arity: "length output_size = 2"
    and fmt: "suggest_memory_format input = ChannelsLast"
    and fits: "int (H * W) \<le> lane_max scalar_t"
    and n: "n < N" and oh: "oh < oH" and ow: "ow < oW" and d: "d < C"
  shows "\<exists>out ind.
           adaptive_max_pool2d_out_cpu scalar_t vec_size input output_size = Inr (out, ind)
           \<and> data out ! (((n * oH + oh) * oW + ow) * C + d)
               = fst (window_max_cl (data input) C H W oH oW n oh ow d)
           \<and> data ind ! (((n * oH + oh) * oW + ow) * C + d)
               = int (snd (window_max_cl (data input) C H W oH oW n oh ow d))"
proof -
  define obuf where "obuf = at_empty [N, C, oH, oW] ChannelsLast (Num 0)"
  define ibuf where "ibuf = at_empty [N, C, oH, oW] ChannelsLast (0 :: int)"
  have shell: "adaptive_max_pool2d_out_cpu scalar_t vec_size input output_size
               = (if scalar_t = BFloat16
                  then cpu_adaptive_max_pool_channels_last_bf16 vec_size obuf ibuf input output_size
                  else cpu_adaptive_max_pool_channels_last scalar_t vec_size obuf ibuf input
                         output_size)"
    using find_no_zero_dim [OF dims] rank arity fmt
    by (simp add: adaptive_max_pool2d_out_cpu_def adaptive_max_pool2d_kernel_impl_def Let_def
        obuf_def ibuf_def N_def C_def oH_def oW_def)
  have H: "0 < sizes input ! 2" and W: "0 < sizes input ! 3"
    using dims rank by simp_all
  have lo: "sizes input ! 0 * output_size ! 0 * output_size ! 1 * sizes input ! 1
            \<le> length (data obuf)"
    by (simp add: obuf_def at_empty_def N_def C_def oH_def oW_def)
  have li: "length (data ibuf) = length (data obuf)"
    by (simp add: obuf_def ibuf_def at_empty_def)
  show ?thesis
  proof (cases "scalar_t = BFloat16")
    case True
    from cpu_adaptive_max_pool_channels_last_bf16_cell [OF rank H W
        fits [unfolded True H_def W_def] lo li n [unfolded N_def] oh [unfolded oH_def]
        ow [unfolded oW_def] d [unfolded C_def], of vec_size]
    show ?thesis unfolding shell N_def C_def H_def W_def oH_def oW_def using True by simp
  next
    case False
    from cpu_adaptive_max_pool_channels_last_cell [OF rank H W
        fits [unfolded H_def W_def] lo li n [unfolded N_def] oh [unfolded oH_def]
        ow [unfolded oW_def] d [unfolded C_def], of vec_size]
    show ?thesis unfolding shell N_def C_def H_def W_def oH_def oW_def using False by simp
  qed
qed

section \<open>The two layouts\<close>

lemma channels_last_of_nth:
  assumes n: "n < N" and c: "c < C" and j: "j < H * W"
  shows "channels_last_of N C H W xs ! (n * H * W * C + j * C + c)
         = xs ! ((n * C + c) * H * W + j)"
proof -
  define k where "k = n * H * W * C + j * C + c"
  have k1: "k = n * (H * W * C) + (j * C + c)" by (simp add: k_def algebra_simps)
  have k2: "k = (n * (H * W) + j) * C + c" by (simp add: k_def algebra_simps)
  have jc: "j * C + c < H * W * C" using cell_offset_less [OF j c] .
  have "k < n * (H * W * C) + H * W * C" using jc by (simp add: k1)
  also have "\<dots> = Suc n * (H * W * C)" by simp
  also have "\<dots> \<le> N * (H * W * C)" using n by (intro mult_le_mono1) simp
  finally have kN: "k < N * (H * W * C)" .
  have d1: "k div (H * W * C) = n"
  proof -
    define m where "m = H * W * C"
    have "j * C + c < m" using jc by (simp add: m_def)
    moreover from this have "0 < m" by simp
    ultimately
    have "(n * m + (j * C + c)) div m = n" by simp
    then show ?thesis by (simp add: k1 m_def)
  qed
  have d2: "k mod C = c" unfolding k2 using c by simp
  have d3: "k div C = n * (H * W) + j" unfolding k2 using c by simp
  have d4: "k div C mod (H * W) = j" unfolding d3 using j by simp
  have "channels_last_of N C H W xs ! k = xs ! ((n * C + c) * (H * W) + j)"
    using kN by (simp add: channels_last_of_def d1 d2 d4)
  then show ?thesis by (simp add: k_def mult.assoc)
qed

lemma window_max_layouts:
  assumes n: "n < N" and c: "c < C" and oh: "oh < oH" and ow: "ow < oW"
  shows "window_max_cl (channels_last_of N C H W xs) C H W oH oW n oh ow c
         = window_max xs ((n * C + c) * H * W) H W oH oW oh ow"
proof -
  have "j < H * W"
    if "j \<in> set (window_positions W (start_index oh oH H) (end_index oh oH H)
                   (start_index ow oW W) (end_index ow oW W))" for j
    using that
    by (rule window_positions_bound) (use oh ow in \<open>simp_all add: end_le\<close>)
  then show ?thesis
    unfolding window_max_cl_def window_max_def local_max_scan
    by (intro scan_cong) (simp add: channels_last_of_nth [OF n c])
qed

text \<open>
  The forward operation on a contiguous 4D input and on the same values in channels-last
  layout: both return; at each output element the two outputs hold the same value, and the
  index of the contiguous run is the index of the channels-last run converted to the element
  type and back.
\<close>

lemma forward_layouts_up_to_cast:
  fixes x :: "fp tensor" and output_size :: "nat list"
  defines "oH \<equiv> output_size ! 0" and "oW \<equiv> output_size ! 1"
  defines "x_cl \<equiv> x\<lparr>suggest_memory_format := ChannelsLast,
                     data := channels_last_of (sizes x ! 0) (sizes x ! 1) (sizes x ! 2)
                               (sizes x ! 3) (data x)\<rparr>"
  assumes rank: "length (sizes x) = 4"
    and dims: "\<forall>i\<in>{1..<length (sizes x)}. 0 < sizes x ! i"
    and arity: "length output_size = 2"
    and fmt: "suggest_memory_format x = Contiguous"
    and fits: "int (sizes x ! 2 * sizes x ! 3) \<le> lane_max scalar_t"
    and n: "n < sizes x ! 0" and c: "c < sizes x ! 1" and oh: "oh < oH" and ow: "ow < oW"
  shows "\<exists>oc ic ol il.
           adaptive_max_pool2d_out_cpu scalar_t vec_size x output_size = Inr (oc, ic)
           \<and> adaptive_max_pool2d_out_cpu scalar_t vec_size x_cl output_size = Inr (ol, il)
           \<and> data ol ! (((n * oH + oh) * oW + ow) * sizes x ! 1 + c)
               = data oc ! ((n * sizes x ! 1 + c) * (oH * oW) + oh * oW + ow)
           \<and> data ic ! ((n * sizes x ! 1 + c) * (oH * oW) + oh * oW + ow)
               = int (cast_index scalar_t
                   (nat (data il ! (((n * oH + oh) * oW + ow) * sizes x ! 1 + c))))"
proof -
  have p: "n * sizes x ! 1 + c < planes x"
    using cell_offset_less [OF n c] rank by (simp add: planes_def)
  have hw: "height x = sizes x ! 2" "width x = sizes x ! 3"
    using rank by (simp_all add: height_def width_def)
  from forward_contiguous_cell [OF rank [THEN disjI2] dims arity fmt p oh [unfolded oH_def]
      ow [unfolded oW_def], of scalar_t vec_size]
  obtain oc ic where k:
    "adaptive_max_pool2d_out_cpu scalar_t vec_size x output_size = Inr (oc, ic)"
    "data oc ! ((n * sizes x ! 1 + c) * (oH * oW) + oh * oW + ow)
       = fst (window_max (data x) ((n * sizes x ! 1 + c) * sizes x ! 2 * sizes x ! 3)
                (sizes x ! 2) (sizes x ! 3) oH oW oh ow)"
    "data ic ! ((n * sizes x ! 1 + c) * (oH * oW) + oh * oW + ow)
       = int (cast_index scalar_t
           (snd (window_max (data x) ((n * sizes x ! 1 + c) * sizes x ! 2 * sizes x ! 3)
                   (sizes x ! 2) (sizes x ! 3) oH oW oh ow)))"
    unfolding hw oH_def oW_def by blast
  have rank': "length (sizes x_cl) = 4" and fmt': "suggest_memory_format x_cl = ChannelsLast"
    and dims': "\<forall>i\<in>{1..<length (sizes x_cl)}. 0 < sizes x_cl ! i"
    and fits': "int (sizes x_cl ! 2 * sizes x_cl ! 3) \<le> lane_max scalar_t"
    and n': "n < sizes x_cl ! 0" and c': "c < sizes x_cl ! 1"
    using rank dims fits n c by (simp_all add: x_cl_def)
  from forward_channels_last_cell [OF rank' dims' arity fmt' fits' n' oh [unfolded oH_def]
      ow [unfolded oW_def] c', of vec_size]
  obtain ol il where l:
    "adaptive_max_pool2d_out_cpu scalar_t vec_size x_cl output_size = Inr (ol, il)"
    "data ol ! (((n * oH + oh) * oW + ow) * sizes x ! 1 + c)
       = fst (window_max_cl (data x_cl) (sizes x ! 1) (sizes x ! 2) (sizes x ! 3) oH oW n oh ow c)"
    "data il ! (((n * oH + oh) * oW + ow) * sizes x ! 1 + c)
       = int (snd (window_max_cl (data x_cl) (sizes x ! 1) (sizes x ! 2) (sizes x ! 3)
                     oH oW n oh ow c))"
    unfolding oH_def oW_def by (auto simp: x_cl_def)
  have w: "window_max_cl (data x_cl) (sizes x ! 1) (sizes x ! 2) (sizes x ! 3) oH oW n oh ow c
           = window_max (data x) ((n * sizes x ! 1 + c) * sizes x ! 2 * sizes x ! 3)
               (sizes x ! 2) (sizes x ! 3) oH oW oh ow"
    using window_max_layouts [OF n c oh ow] by (simp add: x_cl_def)
  show ?thesis using k l unfolding w by simp
qed

section \<open>The index written by the contiguous kernel\<close>

text \<open>
  \<^verbatim>\<open>indices_ptr[...] = scalar_t(maxindex)\<close> of the contiguous kernel converts the index to the
  element type before the store. Brain-float has 8 significant bits and float has 24: the
  first indices the conversion changes are 257 and 16777217.
\<close>

lemma cast_index_bf16_257: "cast_index BFloat16 257 = 256"
  by (simp add: round_sig_def bit_length.simps Let_def)

lemma cast_index_float_16777217: "cast_index Float 16777217 = 16777216"
  by (simp add: round_sig_def bit_length.simps Let_def)

text \<open>A single output cell over a plane of one row scans the whole row.\<close>

lemma whole_row_window:
  "window_max xs p (Suc 0) W (Suc 0) (Suc 0) 0 0 = scan (\<lambda>j. xs ! (p + j)) [0..<W] (NegInf, 0)"
proof -
  have "map ((+) 0) [0..<W] = [0..<W]" by (rule map_idI) simp
  then show ?thesis
    by (simp add: window_max_def local_max_scan window_positions_def start_index_def
        end_index_def)
qed

text \<open>
  C1. A brain-float row of 258 elements, zero but for a one at position 257, pooled to a
  single cell: the operation returns the maximum, one, and the index 256, where the input
  holds zero; the argmax is 257.
\<close>

theorem forward_index_is_not_the_argmax:
  "\<exists>out ind.
     adaptive_max_pool2d_out_cpu BFloat16 16
       \<lparr>sizes = [1, 1, 258], suggest_memory_format = Contiguous,
        data = replicate 257 (Num 0) @ [Num 1]\<rparr> [1, 1] = Inr (out, ind)
     \<and> data out ! 0 = Num 1 \<and> data ind ! 0 = 256
     \<and> (replicate 257 (Num 0) @ [Num 1]) ! 256 = Num 0
     \<and> (replicate 257 (Num 0) @ [Num 1]) ! 257 = Num 1"
proof -
  let ?xs = "replicate 257 (Num 0) @ [Num 1]"
  let ?x = "\<lparr>sizes = [1, 1, 258], suggest_memory_format = Contiguous, data = ?xs\<rparr>"
  have js: "[0..<258] = [0..<257] @ 257 # []"
    using upt_Suc_append [of 0 257] by simp
  have "scan (\<lambda>j. ?xs ! (0 + j)) [0..<258] (NegInf, 0) = (?xs ! (0 + 257), 257)"
    by (rule scan_first_max [OF js]) (auto simp: nth_append isnan_def)
  then have w: "window_max ?xs 0 (Suc 0) 258 (Suc 0) (Suc 0) 0 0 = (Num 1, 257)"
    by (simp add: whole_row_window nth_append)
  have "\<exists>out ind.
          adaptive_max_pool2d_out_cpu BFloat16 16 ?x [1, 1] = Inr (out, ind)
          \<and> data out ! (0 * ([1, 1] ! 0 * [1, 1] ! 1) + 0 * [1, 1] ! 1 + 0)
              = fst (window_max (data ?x) (0 * height ?x * width ?x) (height ?x) (width ?x)
                       ([1, 1] ! 0) ([1, 1] ! 1) 0 0)
          \<and> data ind ! (0 * ([1, 1] ! 0 * [1, 1] ! 1) + 0 * [1, 1] ! 1 + 0)
              = int (cast_index BFloat16
                  (snd (window_max (data ?x) (0 * height ?x * width ?x) (height ?x) (width ?x)
                          ([1, 1] ! 0) ([1, 1] ! 1) 0 0)))"
    by (rule forward_contiguous_cell) (auto simp: planes_def nth_Cons')
  then show ?thesis
    by (simp add: height_def width_def w cast_index_bf16_257 [simplified] nth_append)
qed


text \<open>
  C3. A brain-float row of 258 elements with not-a-number at positions 0 and 257 and zero
  between them, pooled to a single cell: the output is not-a-number, and the index is 256,
  where the input holds zero; the last not-a-number of the window is at 257.
\<close>

theorem forward_nan_index_is_not_the_last_nan:
  "\<exists>out ind.
     adaptive_max_pool2d_out_cpu BFloat16 16
       \<lparr>sizes = [1, 1, 258], suggest_memory_format = Contiguous,
        data = NaN # replicate 256 (Num 0) @ [NaN]\<rparr> [1, 1] = Inr (out, ind)
     \<and> data out ! 0 = NaN \<and> data ind ! 0 = 256
     \<and> (NaN # replicate 256 (Num 0) @ [NaN]) ! 256 = Num 0
     \<and> (NaN # replicate 256 (Num 0) @ [NaN]) ! 257 = NaN"
proof -
  let ?xs = "NaN # replicate 256 (Num 0) @ [NaN]"
  let ?x = "\<lparr>sizes = [1, 1, 258], suggest_memory_format = Contiguous, data = ?xs\<rparr>"
  have js: "[0..<258] = [0..<257] @ 257 # []"
    using upt_Suc_append [of 0 257] by simp
  have "scan (\<lambda>j. ?xs ! (0 + j)) [0..<258] (NegInf, 0) = (NaN, 257)"
    by (rule scan_last_nan [OF js]) (simp_all add: nth_append nth_Cons' isnan_def)
  then have w: "window_max ?xs 0 (Suc 0) 258 (Suc 0) (Suc 0) 0 0 = (NaN, 257)"
    by (simp add: whole_row_window)
  have "\<exists>out ind.
          adaptive_max_pool2d_out_cpu BFloat16 16 ?x [1, 1] = Inr (out, ind)
          \<and> data out ! (0 * ([1, 1] ! 0 * [1, 1] ! 1) + 0 * [1, 1] ! 1 + 0)
              = fst (window_max (data ?x) (0 * height ?x * width ?x) (height ?x) (width ?x)
                       ([1, 1] ! 0) ([1, 1] ! 1) 0 0)
          \<and> data ind ! (0 * ([1, 1] ! 0 * [1, 1] ! 1) + 0 * [1, 1] ! 1 + 0)
              = int (cast_index BFloat16
                  (snd (window_max (data ?x) (0 * height ?x * width ?x) (height ?x) (width ?x)
                          ([1, 1] ! 0) ([1, 1] ! 1) 0 0)))"
    by (rule forward_contiguous_cell) (auto simp: planes_def nth_Cons')
  then show ?thesis
    by (simp add: height_def width_def w cast_index_bf16_257 [simplified] nth_append nth_Cons')
qed

text \<open>
  C4. A brain-float row of 260 elements without not-a-number, zero but for a one at
  positions 257 and 259, pooled to a single cell: the output is the maximum, one, and the
  index is 256, where the input holds zero; the earliest position of the maximum is 257.
\<close>

theorem forward_index_is_not_the_first_maximum:
  "\<exists>out ind.
     adaptive_max_pool2d_out_cpu BFloat16 16
       \<lparr>sizes = [1, 1, 260], suggest_memory_format = Contiguous,
        data = replicate 257 (Num 0) @ [Num 1, Num 0, Num 1]\<rparr> [1, 1] = Inr (out, ind)
     \<and> data out ! 0 = Num 1 \<and> data ind ! 0 = 256
     \<and> \<not> list_ex isnan (replicate 257 (Num 0) @ [Num 1, Num 0, Num 1])
     \<and> (replicate 257 (Num 0) @ [Num 1, Num 0, Num 1]) ! 256 = Num 0
     \<and> (replicate 257 (Num 0) @ [Num 1, Num 0, Num 1]) ! 257 = Num 1
     \<and> (replicate 257 (Num 0) @ [Num 1, Num 0, Num 1]) ! 259 = Num 1"
proof -
  let ?xs = "replicate 257 (Num 0) @ [Num 1, Num 0, Num 1]"
  let ?x = "\<lparr>sizes = [1, 1, 260], suggest_memory_format = Contiguous, data = ?xs\<rparr>"
  have js: "[0..<260] = [0..<257] @ 257 # [258, 259]"
    using upt_add_eq_append [of 0 257 3] by (simp add: upt_conv_Cons)
  have nonan: "\<not> isnan (?xs ! (0 + k))" if "k \<in> set [0..<260]" for k
  proof -
    have "k < length ?xs" using that by simp
    then have "?xs ! k \<in> set ?xs" by (rule nth_mem)
    then show ?thesis by (auto simp: isnan_def)
  qed
  have "scan (\<lambda>j. ?xs ! (0 + j)) [0..<260] (NegInf, 0) = (?xs ! (0 + 257), 257)"
  proof (rule scan_first_max [OF js])
    show "\<forall>k\<in>set [0..<260]. \<not> isnan (?xs ! (0 + k))" using nonan by blast
  qed (auto simp: nth_append)
  then have w: "window_max ?xs 0 (Suc 0) 260 (Suc 0) (Suc 0) 0 0 = (Num 1, 257)"
    by (simp add: whole_row_window nth_append)
  have "\<exists>out ind.
          adaptive_max_pool2d_out_cpu BFloat16 16 ?x [1, 1] = Inr (out, ind)
          \<and> data out ! (0 * ([1, 1] ! 0 * [1, 1] ! 1) + 0 * [1, 1] ! 1 + 0)
              = fst (window_max (data ?x) (0 * height ?x * width ?x) (height ?x) (width ?x)
                       ([1, 1] ! 0) ([1, 1] ! 1) 0 0)
          \<and> data ind ! (0 * ([1, 1] ! 0 * [1, 1] ! 1) + 0 * [1, 1] ! 1 + 0)
              = int (cast_index BFloat16
                  (snd (window_max (data ?x) (0 * height ?x * width ?x) (height ?x) (width ?x)
                          ([1, 1] ! 0) ([1, 1] ! 1) 0 0)))"
    by (rule forward_contiguous_cell) (auto simp: planes_def nth_Cons')
  then show ?thesis
    by (simp add: height_def width_def w cast_index_bf16_257 [simplified] nth_append
        list_ex_iff isnan_def)
qed

text \<open>
  C10. A brain-float row of 258 elements, all minus infinity, pooled to 258 cells: the
  window of cell 257 is column 257 alone; its output is minus infinity, and its index is
  256, which is not the first position of the window and not in the window.
\<close>

theorem forward_all_neg_inf_index_is_outside_the_window:
  "\<exists>out ind.
     adaptive_max_pool2d_out_cpu BFloat16 16
       \<lparr>sizes = [1, 1, 258], suggest_memory_format = Contiguous,
        data = replicate 258 NegInf\<rparr> [1, 258] = Inr (out, ind)
     \<and> data out ! 257 = NegInf \<and> data ind ! 257 = 256
     \<and> start_index 0 1 1 = 0 \<and> end_index 0 1 1 = 1
     \<and> start_index 257 258 258 = 257 \<and> end_index 257 258 258 = 258"
proof -
  let ?xs = "replicate 258 NegInf"
  let ?x = "\<lparr>sizes = [1, 1, 258], suggest_memory_format = Contiguous, data = ?xs\<rparr>"
  have ix: "start_index 0 1 1 = 0" "end_index 0 1 1 = 1"
    "start_index 257 258 258 = 257" "end_index 257 258 258 = 258"
    by (simp_all add: start_index_def end_index_def)
  have "scan (\<lambda>j. ?xs ! (0 + j)) (window_positions 258 0 1 257 258) (NegInf, 0 * 258 + 257)
        = (NegInf, 0 * 258 + 257)"
    by (rule scan_all_neg_inf) (simp add: window_positions_def)
  then have w: "window_max ?xs 0 1 258 1 258 0 257 = (NegInf, 257)"
    by (simp add: window_max_def local_max_scan start_index_def end_index_def)
  have "\<exists>out ind.
          adaptive_max_pool2d_out_cpu BFloat16 16 ?x [1, 258] = Inr (out, ind)
          \<and> data out ! (0 * ([1, 258] ! 0 * [1, 258] ! 1) + 0 * [1, 258] ! 1 + 257)
              = fst (window_max (data ?x) (0 * height ?x * width ?x) (height ?x) (width ?x)
                       ([1, 258] ! 0) ([1, 258] ! 1) 0 257)
          \<and> data ind ! (0 * ([1, 258] ! 0 * [1, 258] ! 1) + 0 * [1, 258] ! 1 + 257)
              = int (cast_index BFloat16
                  (snd (window_max (data ?x) (0 * height ?x * width ?x) (height ?x) (width ?x)
                          ([1, 258] ! 0) ([1, 258] ! 1) 0 257)))"
    by (rule forward_contiguous_cell) (auto simp: planes_def nth_Cons')
  then show ?thesis
    using w ix by (simp add: height_def width_def cast_index_bf16_257 [simplified])
qed

text \<open>
  C2. Two channels of one row of 258 brain-float elements, zero but for a one at position
  257 of channel 0, pooled to a single cell, once from the contiguous buffer and once from
  the channels-last buffer of the same values: the outputs of channel 0 agree, and the
  indices do not; the contiguous run gives 256 and the channels-last run gives 257.
\<close>

theorem forward_layouts_disagree_on_the_index:
  "\<exists>oc ic ol il.
     adaptive_max_pool2d_out_cpu BFloat16 16
       \<lparr>sizes = [1, 2, 1, 258], suggest_memory_format = Contiguous,
        data = replicate 257 (Num 0) @ Num 1 # replicate 258 (Num 0)\<rparr> [1, 1]
       = Inr (oc, ic)
     \<and> adaptive_max_pool2d_out_cpu BFloat16 16
       \<lparr>sizes = [1, 2, 1, 258], suggest_memory_format = ChannelsLast,
        data = channels_last_of 1 2 1 258
                 (replicate 257 (Num 0) @ Num 1 # replicate 258 (Num 0))\<rparr> [1, 1]
       = Inr (ol, il)
     \<and> data oc ! 0 = Num 1 \<and> data ol ! 0 = Num 1
     \<and> data ic ! 0 = 256 \<and> data il ! 0 = 257"
proof -
  let ?xs = "replicate 257 (Num 0) @ Num 1 # replicate 258 (Num 0)"
  let ?x = "\<lparr>sizes = [1, 2, 1, 258], suggest_memory_format = Contiguous, data = ?xs\<rparr>"
  let ?y = "\<lparr>sizes = [1, 2, 1, 258], suggest_memory_format = ChannelsLast,
             data = channels_last_of 1 2 1 258 ?xs\<rparr>"
  have js: "[0..<258] = [0..<257] @ 257 # []"
    using upt_Suc_append [of 0 257] by simp
  have "scan (\<lambda>j. ?xs ! (0 + j)) [0..<258] (NegInf, 0) = (?xs ! (0 + 257), 257)"
    by (rule scan_first_max [OF js]) (auto simp: nth_append isnan_def)
  then have w: "window_max ?xs 0 (Suc 0) 258 (Suc 0) (Suc 0) 0 0 = (Num 1, 257)"
    by (simp add: whole_row_window nth_append)
  have wl: "window_max_cl (channels_last_of 1 2 1 258 ?xs) 2 1 258 1 1 0 0 0 0 = (Num 1, 257)"
    using window_max_layouts [of 0 1 0 2 0 1 0 1 1 258 ?xs] w by simp
  have c: "\<exists>out ind.
          adaptive_max_pool2d_out_cpu BFloat16 16 ?x [1, 1] = Inr (out, ind)
          \<and> data out ! (0 * ([1, 1] ! 0 * [1, 1] ! 1) + 0 * [1, 1] ! 1 + 0)
              = fst (window_max (data ?x) (0 * height ?x * width ?x) (height ?x) (width ?x)
                       ([1, 1] ! 0) ([1, 1] ! 1) 0 0)
          \<and> data ind ! (0 * ([1, 1] ! 0 * [1, 1] ! 1) + 0 * [1, 1] ! 1 + 0)
              = int (cast_index BFloat16
                  (snd (window_max (data ?x) (0 * height ?x * width ?x) (height ?x) (width ?x)
                          ([1, 1] ! 0) ([1, 1] ! 1) 0 0)))"
    by (rule forward_contiguous_cell) (auto simp: planes_def nth_Cons')
  have l: "\<exists>out ind.
          adaptive_max_pool2d_out_cpu BFloat16 16 ?y [1, 1] = Inr (out, ind)
          \<and> data out ! (((0 * [1, 1] ! 0 + 0) * [1, 1] ! 1 + 0) * sizes ?y ! 1 + 0)
              = fst (window_max_cl (data ?y) (sizes ?y ! 1) (sizes ?y ! 2) (sizes ?y ! 3)
                       ([1, 1] ! 0) ([1, 1] ! 1) 0 0 0 0)
          \<and> data ind ! (((0 * [1, 1] ! 0 + 0) * [1, 1] ! 1 + 0) * sizes ?y ! 1 + 0)
              = int (snd (window_max_cl (data ?y) (sizes ?y ! 1) (sizes ?y ! 2) (sizes ?y ! 3)
                       ([1, 1] ! 0) ([1, 1] ! 1) 0 0 0 0))"
    by (rule forward_channels_last_cell) (auto simp: lane_max_def nth_Cons')
  from c obtain oc ic where c':
    "adaptive_max_pool2d_out_cpu BFloat16 16 ?x [1, 1] = Inr (oc, ic)"
    "data oc ! 0 = Num 1" "data ic ! 0 = 256"
    by (auto simp: height_def width_def w cast_index_bf16_257 [simplified])
  from l obtain ol il where l':
    "adaptive_max_pool2d_out_cpu BFloat16 16 ?y [1, 1] = Inr (ol, il)"
    "data ol ! 0 = Num 1" "data il ! 0 = 257"
    using wl by auto
  from c' l' show ?thesis by blast
qed

end
